theory Spec2Isabelle
  imports Complex_Main "HOL-Library.AList"
begin

section \<open>Data model\<close>

text \<open>
  A \<^verbatim>\<open>datetime.datetime\<close> is a whole number of microseconds since the epoch, a
  \<^verbatim>\<open>datetime.timedelta\<close> a whole number of microseconds. Floating-point values
  (\<^verbatim>\<open>time.timestamp()\<close>, the entries of state vectors after
  \<^verbatim>\<open>astype(float)\<close>) are exact reals: rounding is outside the model.
\<close>

type_synonym datetime = int
type_synonym timedelta = int

datatype index_msg = ListIndexOutOfRange | AllTimesOutside datetime datetime

datatype py_error =
    IndexError index_msg
  | ValueError
  | KeyError
  | StopIteration
  | ZeroDivisionError
  | AttributeError

text \<open>
  Modelled from the spec: the class \<^verbatim>\<open>State\<close> lives in \<^verbatim>\<open>stonesoup/types/state.py\<close>,
  which is not among the sources. The spec's timestamped state: a timestamp, a numeric
  vector of \<open>ndim\<close> components, and whatever else the state carries (covariance,
  weight, ...), which interpolation does not touch and which is kept opaque here.
\<close>

record 'a state =
  timestamp :: datetime
  state_vector :: "real list"
  other :: 'a

definition ndim :: "'a state \<Rightarrow> nat" where
  "ndim st = length (state_vector st)"

text \<open>
  Modelled from the spec: \<^verbatim>\<open>State.from_state\<close> lives in \<^verbatim>\<open>stonesoup/types/state.py\<close>,
  which is not among the sources. The spec's clone-with-override: given a reference
  state, a new timestamp, and a new vector, produce a new state with the reference's
  non-vector attributes and the new timestamp and vector.
\<close>

definition from_state :: "'a state \<Rightarrow> datetime \<Rightarrow> real list \<Rightarrow> 'a state" where
  "from_state st t v = st\<lparr>timestamp := t, state_vector := v\<rparr>"

section \<open>\<^verbatim>\<open>time_range\<close>\<close>

text \<open>Python's \<^verbatim>\<open>int()\<close> of a float truncates toward zero.\<close>

definition py_int :: "real \<Rightarrow> int" where
  "py_int r = (if r < 0 then \<lceil>r\<rceil> else \<lfloor>r\<rfloor>)"

definition default_timestep :: timedelta where
  "default_timestep = 1000000"

text \<open>
  The generator's yields, as a list. \<^verbatim>\<open>duration / timestep\<close> is true division of two
  timedeltas and raises \<^verbatim>\<open>ZeroDivisionError\<close> for a zero step; \<^verbatim>\<open>range(n)\<close> is empty for
  \<open>n \<le> 0\<close>. The optional argument is \<open>None\<close> when the caller leaves the step out.
  The quotient is taken exactly here; Python rounds it to the nearest double, whose
  truncation is that of the exact quotient as long as the duration stays below \<open>2^53\<close>
  microseconds (some 285 years).
\<close>

definition time_range :: "datetime \<Rightarrow> datetime \<Rightarrow> timedelta option \<Rightarrow> py_error + datetime list" where
  "time_range start_time end_time timestep_arg =
     (let timestep = (case timestep_arg of None \<Rightarrow> default_timestep | Some d \<Rightarrow> d);
          duration = end_time - start_time
      in if timestep = 0 then Inl ZeroDivisionError
         else
           let n_time_steps = real_of_int duration / real_of_int timestep
           in Inr (map (\<lambda>x. start_time + int x * timestep)
                        [0 ..< nat (py_int n_time_steps + 1)]))"

section \<open>The predecessor cursor, \<^verbatim>\<open>_get_previous_state\<close>\<close>

fun pairwise_iter :: "'x list \<Rightarrow> ('x \<times> 'x) list" where
  "pairwise_iter (a # b # xs) = (a, b) # pairwise_iter (b # xs)"
| "pairwise_iter [a] = []"
| "pairwise_iter [] = []"

text \<open>
  The closure's captured variables: \<^verbatim>\<open>state_before\<close>, \<^verbatim>\<open>state_after\<close> and what is left
  of the iterator \<^verbatim>\<open>state_iter\<close>.
\<close>

type_synonym 'a cursor = "'a state \<times> 'a state \<times> ('a state \<times> 'a state) list"

text \<open>
  \<^verbatim>\<open>_get_previous_state\<close>: the first \<^verbatim>\<open>next(state_iter)\<close> raises \<^verbatim>\<open>StopIteration\<close> when the
  sequence has fewer than two states.
\<close>

definition get_previous_state :: "'a state list \<Rightarrow> py_error + 'a cursor" where
  "get_previous_state states =
     (case pairwise_iter states of
        [] \<Rightarrow> Inl StopIteration
      | p # state_iter \<Rightarrow> Inr (fst p, snd p, state_iter))"

text \<open>
  \<^verbatim>\<open>inner_fun\<close>: the while loop, returning the result together with the captured
  variables as the call leaves them (also when \<^verbatim>\<open>next\<close> raises).
\<close>

fun inner_fun :: "datetime \<Rightarrow> 'a cursor \<Rightarrow> (py_error + 'a state) \<times> 'a cursor" where
  "inner_fun t (state_before, state_after, []) =
     (if timestamp state_after < t
      then (Inl StopIteration, (state_before, state_after, []))
      else (Inr state_before, (state_before, state_after, [])))"
| "inner_fun t (state_before, state_after, p # state_iter) =
     (if timestamp state_after < t
      then inner_fun t (fst p, snd p, state_iter)
      else (Inr state_before, (state_before, state_after, p # state_iter)))"

text \<open>A run of calls on one cursor: the results, in call order.\<close>

fun calls :: "'a cursor \<Rightarrow> datetime list \<Rightarrow> (py_error + 'a state) list" where
  "calls c [] = []"
| "calls c (t # ts) = (case inner_fun t c of (r, c') \<Rightarrow> r # calls c' ts)"

text \<open>
  The work of the cursor: how often a call runs the body of its while loop, that is,
  calls \<^verbatim>\<open>next(state_iter)\<close>, and the total over a run of calls on one cursor.
\<close>

fun inner_fun_steps :: "datetime \<Rightarrow> 'a cursor \<Rightarrow> nat" where
  "inner_fun_steps t (state_before, state_after, []) =
     (if timestamp state_after < t then 1 else 0)"
| "inner_fun_steps t (state_before, state_after, p # state_iter) =
     (if timestamp state_after < t
      then 1 + inner_fun_steps t (fst p, snd p, state_iter)
      else 0)"

fun calls_steps :: "'a cursor \<Rightarrow> datetime list \<Rightarrow> nat" where
  "calls_steps c [] = 0"
| "calls_steps c (t # ts) = inner_fun_steps t c + calls_steps (snd (inner_fun t c)) ts"

section \<open>\<^verbatim>\<open>interpolate_state_mutable_sequence\<close>: the computation on the states\<close>

text \<open>
  A Python \<^verbatim>\<open>dict\<close> keeps its keys in insertion order; assigning to an existing key
  replaces the value and leaves the key where it is. That is \<open>AList.update\<close> on an
  association list. The dict comprehension of the source inserts the states in
  sequence order.
\<close>

definition time_state_dict :: "'a state list \<Rightarrow> (datetime \<times> 'a state) list" where
  "time_state_dict ss = fold (\<lambda>st. AList.update (timestamp st) st) ss []"

datatype warning = OutsideTimeRange datetime datetime "datetime set"

text \<open>\<^verbatim>\<open>max\<close> and \<^verbatim>\<open>min\<close> of a list raise \<^verbatim>\<open>ValueError\<close> on the empty list.\<close>

fun py_max :: "datetime list \<Rightarrow> py_error + datetime" where
  "py_max [] = Inl ValueError"
| "py_max (x # xs) = Inr (fold max xs x)"

fun py_min :: "datetime list \<Rightarrow> py_error + datetime" where
  "py_min [] = Inl ValueError"
| "py_min (x # xs) = Inr (fold min xs x)"

text \<open>
  The block "Filter times if required": the warnings emitted, and either the exception
  raised or the list that \<^verbatim>\<open>times\<close> names afterwards.
\<close>

definition filter_times ::
  "datetime \<Rightarrow> datetime \<Rightarrow> datetime list \<Rightarrow> warning list \<times> (py_error + datetime list)" where
  "filter_times min_state_time max_state_time tms =
     (case py_max tms of
        Inl e \<Rightarrow> ([], Inl e)
      | Inr mx \<Rightarrow>
          (case (if mx > max_state_time then Inr mx else py_min tms) of
             Inl e \<Rightarrow> ([], Inl e)
           | Inr mn \<Rightarrow>
               if mx > max_state_time \<or> mn < min_state_time
               then
                 let new_times = filter (\<lambda>time. min_state_time \<le> time \<and> time \<le> max_state_time) tms
                 in if length new_times = 0
                    then ([], Inl (IndexError (AllTimesOutside min_state_time max_state_time)))
                    else ([OutsideTimeRange min_state_time max_state_time
                             (set tms - set new_times)], Inr new_times)
               else ([], Inr tms)))"

text \<open>\<^verbatim>\<open>sorted(set(times).difference(time_state_dict.keys()))\<close>\<close>

definition times_to_interpolate :: "datetime list \<Rightarrow> (datetime \<times> 'a state) list \<Rightarrow> datetime list" where
  "times_to_interpolate tms d = sort (remdups (filter (\<lambda>time. time \<notin> set (map fst d)) tms))"

text \<open>
  \<^verbatim>\<open>datetime.timestamp()\<close> converts a datetime to seconds since the epoch, as a
  double. The value is a rounded one, and for a naive datetime it depends on the local
  time zone, so it is not a fixed function of the microsecond count: it is a parameter
  \<open>posix_timestamp\<close> of the model below. Two instances serve to run the model on
  concrete inputs: the conversion without rounding, and the double nearest to it for
  an aware datetime between the years 2004 and 2038, where the seconds lie in
  \<open>[2^30, 2^31)\<close> and doubles are \<open>2^-22\<close> apart (no tie occurs, the quotient having
  an odd denominator).
\<close>

definition exact_seconds :: "datetime \<Rightarrow> real" where
  "exact_seconds time = real_of_int time / 1000000"

definition double_seconds :: "datetime \<Rightarrow> real" where
  "double_seconds time = real_of_int (round (real_of_int time * 4194304 / 1000000)) / 4194304"

text \<open>
  \<^verbatim>\<open>numpy.interp\<close> is a library function. The model follows numpy's routine: a query
  right of the last sample point gives the last value, one left of the first sample
  point the first value; otherwise the index \<open>j\<close> is found by a forward search from the
  second sample point (numpy's \<^verbatim>\<open>linear_search\<close>, which it uses itself for up to four
  sample points and whose answer its bisection shares on increasing sample points),
  and the result is \<open>fp[j]\<close> when \<open>j\<close> is the last index or \<open>xp[j] = x\<close>, else
  \<open>slope * (x - xp[j]) + fp[j]\<close>. The caller passes the keys and values of one
  non-empty dict, so the two lists are non-empty and of one length.
\<close>

fun interp_from :: "real \<Rightarrow> (real \<times> real) list \<Rightarrow> real" where
  "interp_from x [] = 0"
| "interp_from x [p] = snd p"
| "interp_from x (p # q # ps) =
     (if x \<ge> fst q then interp_from x (q # ps)
      else if fst p = x then snd p
      else (snd q - snd p) / (fst q - fst p) * (x - fst p) + snd p)"

definition np_interp1 :: "real \<Rightarrow> real list \<Rightarrow> real list \<Rightarrow> real" where
  "np_interp1 x xp fp =
     (if x > last xp then last fp
      else if x < hd xp then hd fp
      else interp_from x (zip xp fp))"

definition np_interp :: "real list \<Rightarrow> real list \<Rightarrow> real list \<Rightarrow> real list" where
  "np_interp xs xp fp = map (\<lambda>x. np_interp1 x xp fp) xs"

text \<open>
  Modelled from the spec: \<^verbatim>\<open>StateVectors\<close> lives in \<^verbatim>\<open>stonesoup/types/array.py\<close>, which is
  not among the sources. The spec builds a \<open>D \<times> N\<close> matrix of the known vectors, \<open>D\<close>
  being uniform across the states of one sequence; columns of different heights
  cannot be stacked. The matrix is the list of its \<open>D\<close> rows.
\<close>

definition StateVectors :: "real list list \<Rightarrow> py_error + real list list" where
  "StateVectors vs =
     (if list_all (\<lambda>v. length v = length (hd vs)) vs
      then Inr (map (\<lambda>i. map (\<lambda>v. v ! i) vs) [0 ..< length (hd vs)])
      else Inl ValueError)"

text \<open>
  The loop over \<^verbatim>\<open>range(sms.state.ndim)\<close>: row \<open>element_index\<close> of the output is the
  interpolation of row \<open>element_index\<close> of the matrix. Indexing a row the matrix does
  not have raises \<^verbatim>\<open>IndexError\<close>.
\<close>

definition interp_output ::
  "nat \<Rightarrow> real list \<Rightarrow> real list \<Rightarrow> real list list \<Rightarrow> py_error + real list list" where
  "interp_output nd interp_timestamps state_timestamps state_vectors =
     (if nd \<le> length state_vectors
      then Inr (map (\<lambda>element_index.
                  np_interp interp_timestamps state_timestamps (state_vectors ! element_index))
                [0 ..< nd])
      else Inl (IndexError ListIndexOutOfRange))"

text \<open>
  The loop over \<^verbatim>\<open>enumerate(times_to_interpolate)\<close>: the cursor is asked for the state
  before \<^verbatim>\<open>time\<close>, and the dict entry for \<^verbatim>\<open>time\<close> becomes a copy of that state with
  the timestamp \<^verbatim>\<open>time\<close> and column \<^verbatim>\<open>state_index\<close> of the output.
\<close>

fun synth_loop ::
  "'a cursor \<Rightarrow> (nat \<times> datetime) list \<Rightarrow> real list list \<Rightarrow> (datetime \<times> 'a state) list
     \<Rightarrow> py_error + (datetime \<times> 'a state) list" where
  "synth_loop c [] out d = Inr d"
| "synth_loop c (it # rest) out d =
     (case inner_fun (snd it) c of
        (Inl e, c') \<Rightarrow> Inl e
      | (Inr original_state_before, c') \<Rightarrow>
          synth_loop c' rest out
            (AList.update (snd it)
               (from_state original_state_before (snd it) (map (\<lambda>row. row ! fst it) out)) d))"

text \<open>The body of \<^verbatim>\<open>if len(times_to_interpolate) > 0\<close>.\<close>

definition synthesize ::
  "(datetime \<Rightarrow> real) \<Rightarrow> 'a state list \<Rightarrow> (datetime \<times> 'a state) list \<Rightarrow> datetime list
     \<Rightarrow> py_error + (datetime \<times> 'a state) list" where
  "synthesize posix_timestamp ss d tti =
     (case StateVectors (map (\<lambda>kv. state_vector (snd kv)) d) of
        Inl e \<Rightarrow> Inl e
      | Inr state_vectors \<Rightarrow>
          let state_timestamps = map (\<lambda>kv. posix_timestamp (fst kv)) d;
              interp_timestamps = map posix_timestamp tti
          in case interp_output (ndim (last ss)) interp_timestamps state_timestamps state_vectors of
               Inl e \<Rightarrow> Inl e
             | Inr out \<Rightarrow>
                 (case get_previous_state ss of
                    Inl e \<Rightarrow> Inl e
                  | Inr c \<Rightarrow> synth_loop c (enumerate 0 tti) out d))"

text \<open>\<^verbatim>\<open>[time_state_dict[time] for time in times]\<close>; a missing key raises \<^verbatim>\<open>KeyError\<close>.\<close>

fun lookup_all :: "(datetime \<times> 'a state) list \<Rightarrow> datetime list \<Rightarrow> py_error + 'a state list" where
  "lookup_all d [] = Inr []"
| "lookup_all d (time # tms) =
     (case map_of d time of
        None \<Rightarrow> Inl KeyError
      | Some st \<Rightarrow>
          (case lookup_all d tms of
             Inl e \<Rightarrow> Inl e
           | Inr sts \<Rightarrow> Inr (st # sts)))"

text \<open>
  Everything the function computes from the states \<open>ss\<close> of \<^verbatim>\<open>sms\<close> and the list
  \<^verbatim>\<open>times\<close>: the warnings emitted, and the exception raised or the list assigned to
  \<^verbatim>\<open>new_sms.states\<close>. \<^verbatim>\<open>sms[-1]\<close> raises \<^verbatim>\<open>IndexError\<close> on an empty sequence.
\<close>

definition interpolate_states ::
  "(datetime \<Rightarrow> real) \<Rightarrow> 'a state list \<Rightarrow> datetime list
     \<Rightarrow> warning list \<times> (py_error + 'a state list)" where
  "interpolate_states posix_timestamp ss times0 =
     (let d = time_state_dict ss
      in if ss = [] then ([], Inl (IndexError ListIndexOutOfRange))
         else
           let max_state_time = timestamp (last ss);
               min_state_time = timestamp (hd ss)
           in case filter_times min_state_time max_state_time times0 of
                (ws, Inl e) \<Rightarrow> (ws, Inl e)
              | (ws, Inr tms) \<Rightarrow>
                  let tti = times_to_interpolate tms d
                  in (ws,
                      case (if length tti > 0 then synthesize posix_timestamp ss d tti else Inr d) of
                        Inl e \<Rightarrow> Inl e
                      | Inr d' \<Rightarrow> lookup_all d' tms))"

section \<open>\<^verbatim>\<open>interpolate_state_mutable_sequence\<close>: the call on the sequence object\<close>

text \<open>
  Modelled from the spec: the classes \<^verbatim>\<open>StateMutableSequence\<close> and \<^verbatim>\<open>Track\<close> live in
  \<^verbatim>\<open>stonesoup/types\<close>, which is not among the sources. The spec's state sequence: an
  ordered collection of states, read in order and at its first and last position,
  with an accessor for the current (last) state and an optional side list of metadata.

  A sequence object holds references: its attribute \<^verbatim>\<open>states\<close> names a list object, and
  its attribute \<^verbatim>\<open>metadatas\<close>, which only a \<^verbatim>\<open>Track\<close> has, names another one.
  \<^verbatim>\<open>copy.copy\<close> is a shallow copy, so the copy's attributes name the very list objects
  of the original. The heap is the list of all objects, an address is an index into
  it, and a new object goes to the end.
\<close>

type_synonym addr = nat

datatype ('a, 'm) pyobj =
    SequenceObj addr "addr option"
  | ListOfStates "'a state list"
  | ListOfMetadata "'m list"

type_synonym ('a, 'm) heap = "('a, 'm) pyobj list"

definition deref :: "('a, 'm) heap \<Rightarrow> addr \<Rightarrow> ('a, 'm) pyobj option" where
  "deref h a = (if a < length h then Some (h ! a) else None)"

definition alloc :: "('a, 'm) heap \<Rightarrow> ('a, 'm) pyobj \<Rightarrow> ('a, 'm) heap \<times> addr" where
  "alloc h ob = (h @ [ob], length h)"

text \<open>\<^verbatim>\<open>sms.states\<close> and \<^verbatim>\<open>sms.metadatas\<close>, read through the references.\<close>

definition get_states :: "('a, 'm) heap \<Rightarrow> addr \<Rightarrow> 'a state list option" where
  "get_states h sms =
     (case deref h sms of
        Some (SequenceObj sref mref) \<Rightarrow>
          (case deref h sref of Some (ListOfStates ss) \<Rightarrow> Some ss | _ \<Rightarrow> None)
      | _ \<Rightarrow> None)"

definition get_metadatas :: "('a, 'm) heap \<Rightarrow> addr \<Rightarrow> 'm list option" where
  "get_metadatas h sms =
     (case deref h sms of
        Some (SequenceObj sref (Some mref)) \<Rightarrow>
          (case deref h mref of Some (ListOfMetadata ms) \<Rightarrow> Some ms | _ \<Rightarrow> None)
      | _ \<Rightarrow> None)"

text \<open>
  The list form of the call. The copy is made and its \<^verbatim>\<open>metadatas\<close> rebound to a new
  empty list before anything is read; the states are then read through \<^verbatim>\<open>sms\<close>; the
  result list is a new list object, to which the copy's \<^verbatim>\<open>states\<close> is rebound. An
  argument that is no sequence has no attribute \<^verbatim>\<open>states\<close>.
\<close>

definition interpolate_list ::
  "(datetime \<Rightarrow> real) \<Rightarrow> ('a, 'm) heap \<Rightarrow> addr \<Rightarrow> datetime list
     \<Rightarrow> ('a, 'm) heap \<times> warning list \<times> (py_error + addr)" where
  "interpolate_list posix_timestamp h sms tms =
     (case deref h sms of
        Some (SequenceObj sref mref) \<Rightarrow>
          (case alloc h (SequenceObj sref mref) of
             (h1, new_sms) \<Rightarrow>
               (case (case mref of
                        None \<Rightarrow> (h1, None)
                      | Some m \<Rightarrow>
                          (case alloc h1 (ListOfMetadata []) of
                             (h', l) \<Rightarrow> (h'[new_sms := SequenceObj sref (Some l)], Some l))) of
                  (h2, mref') \<Rightarrow>
                    (case get_states h2 sms of
                       None \<Rightarrow> (h2, [], Inl AttributeError)
                     | Some ss \<Rightarrow>
                         (case interpolate_states posix_timestamp ss tms of
                            (ws, Inl e) \<Rightarrow> (h2, ws, Inl e)
                          | (ws, Inr new_states) \<Rightarrow>
                              (case alloc h2 (ListOfStates new_states) of
                                 (h3, l) \<Rightarrow>
                                   (h3[new_sms := SequenceObj l mref'], ws, Inr new_sms))))))
      | _ \<Rightarrow> (h, [], Inl AttributeError))"

text \<open>
  \<^verbatim>\<open>times\<close> is one datetime or a list of them; the function returns a state or a
  sequence accordingly. The single form runs the list form on \<^verbatim>\<open>[times]\<close> and returns
  \<^verbatim>\<open>new_sms.state\<close>, the last state of the new sequence.
\<close>

datatype times_arg = Single datetime | TimesList "datetime list"

datatype 'a result = State "'a state" | Sequence addr

fun interpolate_state_mutable_sequence ::
  "(datetime \<Rightarrow> real) \<Rightarrow> ('a, 'm) heap \<Rightarrow> addr \<Rightarrow> times_arg
     \<Rightarrow> ('a, 'm) heap \<times> warning list \<times> (py_error + 'a result)" where
  "interpolate_state_mutable_sequence posix_timestamp h sms (TimesList tms) =
     (case interpolate_list posix_timestamp h sms tms of
        (h', ws, Inl e) \<Rightarrow> (h', ws, Inl e)
      | (h', ws, Inr new_sms) \<Rightarrow> (h', ws, Inr (Sequence new_sms)))"
| "interpolate_state_mutable_sequence posix_timestamp h sms (Single t) =
     (case interpolate_list posix_timestamp h sms [t] of
        (h', ws, Inl e) \<Rightarrow> (h', ws, Inl e)
      | (h', ws, Inr new_sms) \<Rightarrow>
          (case get_states h' new_sms of
             None \<Rightarrow> (h', ws, Inl AttributeError)
           | Some [] \<Rightarrow> (h', ws, Inl (IndexError ListIndexOutOfRange))
           | Some (st # sts) \<Rightarrow> (h', ws, Inr (State (last (st # sts))))))"

section \<open>\<^verbatim>\<open>time_range\<close>: properties\<close>

lemma py_int_nonneg: "0 \<le> r \<Longrightarrow> py_int r = \<lfloor>r\<rfloor>"
  by (simp add: py_int_def)

text \<open>
  With the end not before the start and a positive step, the yields are
  \<open>start + k * step\<close> for \<open>k = 0, ..., \<lfloor>(end - start) / step\<rfloor>\<close>.
\<close>

lemma time_range_forward:
  assumes "start_time \<le> end_time" "0 < timestep"
  shows "time_range start_time end_time (Some timestep) =
           Inr (map (\<lambda>k. start_time + int k * timestep)
                  [0 ..< nat (\<lfloor>real_of_int (end_time - start_time) / real_of_int timestep\<rfloor> + 1)])"
proof -
  have "0 \<le> real_of_int (end_time - start_time) / real_of_int timestep"
    using assms by simp
  then show ?thesis
    using assms by (simp add: time_range_def py_int_nonneg)
qed

text \<open>
  C9. \<^verbatim>\<open>time_range\<close> should yield \<open>start + k * step\<close> for
  \<open>k = 0, ..., \<lfloor>(end - start) / step\<rfloor>\<close> and never overshoot the end. With the end one
  second before the start and a step of three seconds the quotient is \<open>- 1/3\<close>, whose
  floor is \<open>- 1\<close>, so nothing should be yielded; \<^verbatim>\<open>int()\<close> truncates it to \<open>0\<close> and
  the start, which lies after the end, is yielded.
\<close>

theorem time_range_backward: "time_range 1000000 0 (Some 3000000) = Inr [1000000]"
proof -
  have "\<lceil>- (1 / 3 :: real)\<rceil> = 0"
    by (rule ceiling_unique) simp_all
  then show ?thesis
    by (simp add: time_range_def py_int_def)
qed


section \<open>The input sequence is not mutated\<close>

lemma deref_append [simp]:
  "deref (h @ xs) a = (if a < length h then deref h a else if a < length h + length xs then Some (xs ! (a - length h)) else None)"
  by (auto simp: deref_def nth_append)

lemma deref_update [simp]:
  "deref (h[i := x]) a = (if a = i \<and> i < length h then Some x else deref h a)"
  by (auto simp: deref_def)

lemma deref_Some_less: "deref h a = Some x \<Longrightarrow> a < length h"
  by (auto simp: deref_def split: if_splits)

lemma get_states_append:
  assumes "deref h sms = Some (SequenceObj sref mref)"
    and "list_all (\<lambda>ob. case ob of ListOfStates ss \<Rightarrow> False | _ \<Rightarrow> True) xs"
  shows "get_states (h @ xs) sms = get_states h sms"
proof (cases "sref < length h")
  case True
  then show ?thesis
    using assms deref_Some_less [OF assms(1)] by (simp add: get_states_def)
next
  case False
  then have n: "deref h sref = None" by (simp add: deref_def)
  have "(case xs ! (sref - length h) of ListOfStates ss \<Rightarrow> False | _ \<Rightarrow> True)"
    if "sref < length h + length xs"
    using that False assms(2) by (simp add: list_all_length)
  then show ?thesis
    using assms(1) deref_Some_less [OF assms(1)] False n
    by (auto simp: get_states_def split: pyobj.splits)
qed

lemma interpolate_list_unfold:
  assumes s: "deref h sms = Some (SequenceObj sref mref)"
  shows "interpolate_list posix_timestamp h sms tms =
     (let h2 = (case mref of None \<Rightarrow> h @ [SequenceObj sref None]
                | Some m \<Rightarrow> h @ [SequenceObj sref (Some (Suc (length h))), ListOfMetadata []]);
          mref' = (case mref of None \<Rightarrow> None | Some m \<Rightarrow> Some (Suc (length h)))
      in case get_states h sms of
           None \<Rightarrow> (h2, [], Inl AttributeError)
         | Some ss \<Rightarrow>
            (case interpolate_states posix_timestamp ss tms of
               (ws, Inl e) \<Rightarrow> (h2, ws, Inl e)
             | (ws, Inr out) \<Rightarrow>
                 (h @ [SequenceObj (length h2) mref'] @ drop (Suc (length h)) h2 @ [ListOfStates out],
                  ws, Inr (length h))))"
proof (cases mref)
  case None
  have g: "get_states (h @ [SequenceObj sref None]) sms = get_states h sms"
    using s by (rule get_states_append) simp
  show ?thesis
    using s g None
    by (cases "get_states h sms"; cases "interpolate_states posix_timestamp (the (get_states h sms)) tms")
       (auto simp: interpolate_list_def alloc_def Let_def list_update_append split: sum.splits)
next
  case (Some m)
  have g: "get_states (h @ [SequenceObj sref (Some (Suc (length h))), ListOfMetadata []]) sms
             = get_states h sms"
    using s by (rule get_states_append) simp
  show ?thesis
    using s g Some
    by (cases "get_states h sms"; cases "interpolate_states posix_timestamp (the (get_states h sms)) tms")
       (auto simp: interpolate_list_def alloc_def Let_def list_update_append split: sum.splits)
qed

lemma interpolate_list_frame:
  assumes "interpolate_list posix_timestamp h sms tms = (h', ws, r)"
  shows "take (length h) h' = h"
    and "r = Inr a \<Longrightarrow> a = length h"
    and "r = Inr a \<Longrightarrow> get_metadatas h sms \<noteq> None \<Longrightarrow> get_metadatas h' a = Some []"
proof -
  have "take (length h) h' = h
      \<and> (r = Inr a \<longrightarrow> a = length h
           \<and> (get_metadatas h sms \<noteq> None \<longrightarrow> get_metadatas h' a = Some []))"
  proof (cases "\<exists>sref mref. deref h sms = Some (SequenceObj sref mref)")
    case False
    then have "interpolate_list posix_timestamp h sms tms = (h, [], Inl AttributeError)"
      by (auto simp: interpolate_list_def split: option.splits pyobj.splits)
    then show ?thesis using assms by auto
  next
    case True
    then obtain sref mref where s: "deref h sms = Some (SequenceObj sref mref)" by blast
    show ?thesis
      using assms s interpolate_list_unfold [OF s, of posix_timestamp tms]
      by (cases mref; cases "get_states h sms";
          cases "interpolate_states posix_timestamp (the (get_states h sms)) tms")
         (auto simp: Let_def get_metadatas_def split: sum.splits)
  qed
  then show "take (length h) h' = h"
    and "r = Inr a \<Longrightarrow> a = length h"
    and "r = Inr a \<Longrightarrow> get_metadatas h sms \<noteq> None \<Longrightarrow> get_metadatas h' a = Some []"
    by blast+
qed

lemma prefix_deref: "take (length h) h' = h \<Longrightarrow> a < length h \<Longrightarrow> deref h' a = deref h a"
  by (metis deref_def length_take min_less_iff_conj nth_take)

lemma get_states_SomeD:
  "get_states h sms = Some ss \<Longrightarrow>
     \<exists>sref mref. deref h sms = Some (SequenceObj sref mref) \<and> deref h sref = Some (ListOfStates ss)"
  by (auto simp: get_states_def split: option.splits pyobj.splits)

lemma get_metadatas_SomeD:
  "get_metadatas h sms = Some ms \<Longrightarrow>
     \<exists>sref mref. deref h sms = Some (SequenceObj sref (Some mref))
        \<and> deref h mref = Some (ListOfMetadata ms)"
  by (auto simp: get_metadatas_def split: option.splits pyobj.splits)

text \<open>
  C8. The call leaves every object of the heap it was given as it was: the heap after
  the call starts with the heap before it. In particular the input sequence still has
  its states and, when it has one, its \<^verbatim>\<open>metadatas\<close> list. A returned sequence is a new
  object, and when the input has a \<^verbatim>\<open>metadatas\<close> attribute the returned one's is empty.
\<close>

theorem interpolate_never_mutates_input:
  assumes "interpolate_state_mutable_sequence posix_timestamp h sms arg = (h', ws, r)"
  shows "take (length h) h' = h
       \<and> (\<forall>ss. get_states h sms = Some ss \<longrightarrow> get_states h' sms = Some ss)
       \<and> (\<forall>ms. get_metadatas h sms = Some ms \<longrightarrow> get_metadatas h' sms = Some ms)
       \<and> (\<forall>a. r = Inr (Sequence a) \<longrightarrow>
              length h \<le> a
            \<and> (get_metadatas h sms \<noteq> None \<longrightarrow> get_metadatas h' a = Some []))"
proof -
  obtain tms where tms: "tms = (case arg of TimesList l \<Rightarrow> l | Single t \<Rightarrow> [t])" by simp
  obtain h1 ws1 r1 where il: "interpolate_list posix_timestamp h sms tms = (h1, ws1, r1)"
    by (cases "interpolate_list posix_timestamp h sms tms") auto
  have h': "h' = h1"
    using assms il tms
    by (cases arg; cases r1) (auto split: option.splits list.splits)
  have pre: "take (length h) h' = h"
    using interpolate_list_frame(1) [OF il] h' by simp
  have d: "deref h' a = deref h a" if "a < length h" for a
    using pre that by (rule prefix_deref)
  have st: "get_states h' sms = Some ss" if gs: "get_states h sms = Some ss" for ss
  proof -
    obtain sref mref where *: "deref h sms = Some (SequenceObj sref mref)"
      "deref h sref = Some (ListOfStates ss)"
      using get_states_SomeD [OF gs] by blast
    then have "deref h' sms = Some (SequenceObj sref mref)" "deref h' sref = Some (ListOfStates ss)"
      using d deref_Some_less by metis+
    then show ?thesis by (simp add: get_states_def)
  qed
  have mt: "get_metadatas h' sms = Some ms" if gm: "get_metadatas h sms = Some ms" for ms
  proof -
    obtain sref mref where *: "deref h sms = Some (SequenceObj sref (Some mref))"
      "deref h mref = Some (ListOfMetadata ms)"
      using get_metadatas_SomeD [OF gm] by blast
    then have "deref h' sms = Some (SequenceObj sref (Some mref))"
      "deref h' mref = Some (ListOfMetadata ms)"
      using d deref_Some_less by metis+
    then show ?thesis by (simp add: get_metadatas_def)
  qed
  have new: "length h \<le> a \<and> (get_metadatas h sms \<noteq> None \<longrightarrow> get_metadatas h' a = Some [])"
    if "r = Inr (Sequence a)" for a
  proof -
    have "r1 = Inr a"
      using assms il tms that
      by (cases arg; cases r1) (auto split: option.splits list.splits)
    then show ?thesis
      using interpolate_list_frame(2,3) [OF il, of a] h' by simp
  qed
  show ?thesis using pre st mt new by blast
qed

theorem interpolate_never_mutates_input_witness:
  "get_states
     (fst (interpolate_state_mutable_sequence exact_seconds
        [SequenceObj 1 (Some 2),
         ListOfStates [\<lparr>timestamp = 0, state_vector = [0, 0], other = ()\<rparr>,
                       \<lparr>timestamp = 10, state_vector = [10, 20], other = ()\<rparr>],
         ListOfMetadata [True]] 0 (TimesList [0, 5, 10]))) 0
     = Some [\<lparr>timestamp = 0, state_vector = [0, 0], other = ()\<rparr>,
             \<lparr>timestamp = 10, state_vector = [10, 20], other = ()\<rparr>]
   \<and> get_metadatas
     (fst (interpolate_state_mutable_sequence exact_seconds
        [SequenceObj 1 (Some 2),
         ListOfStates [\<lparr>timestamp = 0, state_vector = [0, 0], other = ()\<rparr>,
                       \<lparr>timestamp = 10, state_vector = [10, 20], other = ()\<rparr>],
         ListOfMetadata [True]] 0 (TimesList [0, 5, 10]))) 0 = Some [True]
   \<and> get_metadatas
     (fst (interpolate_state_mutable_sequence exact_seconds
        [SequenceObj 1 (Some 2),
         ListOfStates [\<lparr>timestamp = 0, state_vector = [0, 0], other = ()\<rparr>,
                       \<lparr>timestamp = 10, state_vector = [10, 20], other = ()\<rparr>],
         ListOfMetadata [True]] 0 (TimesList [0, 5, 10]))) 3 = Some []"
proof -
  let ?h = "[SequenceObj 1 (Some 2),
         ListOfStates [\<lparr>timestamp = 0, state_vector = [0, 0], other = ()\<rparr>,
                       \<lparr>timestamp = 10, state_vector = [10, 20], other = ()\<rparr>],
         ListOfMetadata [True]] :: (unit, bool) heap"
  obtain h' ws r where run: "interpolate_state_mutable_sequence exact_seconds ?h 0 (TimesList [0, 5, 10]) = (h', ws, r)"
    by (cases "interpolate_state_mutable_sequence exact_seconds ?h 0 (TimesList [0, 5, 10])") auto
  have r: "r = Inr (Sequence 3)"
  proof -
    have "snd (snd (interpolate_state_mutable_sequence exact_seconds ?h 0 (TimesList [0, 5, 10]))) = Inr (Sequence 3)"
      by code_simp
    then show ?thesis using run by simp
  qed
  have gs: "get_states ?h 0 = Some [\<lparr>timestamp = 0, state_vector = [0, 0], other = ()\<rparr>,
                       \<lparr>timestamp = 10, state_vector = [10, 20], other = ()\<rparr>]"
    by (simp add: get_states_def deref_def)
  have gm: "get_metadatas ?h 0 = Some [True]"
    by (simp add: get_metadatas_def deref_def)
  show ?thesis
    using interpolate_never_mutates_input [OF run] r gs gm run by simp
qed

section \<open>The timestamp-to-state dict\<close>

lemma map_of_fold_update:
  "map_of (fold (\<lambda>st. AList.update (timestamp st) st) ss d) t =
     (case filter (\<lambda>s. timestamp s = t) ss of
        [] \<Rightarrow> map_of d t
      | x # xs \<Rightarrow> Some (last (x # xs)))"
  by (induction ss arbitrary: d) (auto simp: update_conv' split: list.splits)

lemma map_of_time_state_dict:
  "map_of (time_state_dict ss) t =
     (case filter (\<lambda>s. timestamp s = t) ss of
        [] \<Rightarrow> None
      | x # xs \<Rightarrow> Some (last (x # xs)))"
  by (simp add: time_state_dict_def map_of_fold_update split: list.splits)

lemma distinct_fold_update:
  "distinct (map fst d) \<Longrightarrow> distinct (map fst (fold (\<lambda>st. AList.update (timestamp st) st) ss d))"
  by (induction ss arbitrary: d) (auto simp: distinct_update)

lemma distinct_time_state_dict: "distinct (map fst (time_state_dict ss))"
  by (simp add: time_state_dict_def distinct_fold_update)

lemma keys_fold_update:
  "fst ` set (fold (\<lambda>st. AList.update (timestamp st) st) ss d) = fst ` set d \<union> timestamp ` set ss"
  by (induction ss arbitrary: d) (auto simp: dom_update)

lemma keys_time_state_dict: "fst ` set (time_state_dict ss) = timestamp ` set ss"
  by (simp add: time_state_dict_def keys_fold_update)

lemma time_state_dict_entry:
  assumes "(t, s) \<in> set (time_state_dict ss)"
  shows "s = last (filter (\<lambda>s. timestamp s = t) ss) \<and> s \<in> set ss \<and> timestamp s = t"
proof -
  have m: "map_of (time_state_dict ss) t = Some s"
    using assms by (simp add: distinct_time_state_dict)
  then have ne: "filter (\<lambda>s. timestamp s = t) ss \<noteq> []"
    and eq: "s = last (filter (\<lambda>s. timestamp s = t) ss)"
    by (auto simp: map_of_time_state_dict split: list.splits)
  have "s \<in> set (filter (\<lambda>s. timestamp s = t) ss)"
    using ne eq last_in_set by blast
  then show ?thesis using eq by simp
qed

lemma sorted_keys_update:
  "sorted_wrt (<) (map fst al) \<Longrightarrow> \<forall>k\<in>fst ` set al. k \<le> k' \<Longrightarrow>
     sorted_wrt (<) (map fst (AList.update k' v al))"
  for k' :: int
proof (induction al)
  case Nil
  then show ?case by simp
next
  case (Cons p al)
  show ?case
  proof (cases "fst p = k'")
    case True
    then show ?thesis using Cons.prems by simp
  next
    case False
    have "fst p < k'" using Cons.prems(2) False by force
    moreover have "\<forall>k\<in>fst ` set al. fst p < k" using Cons.prems(1) by auto
    ultimately have "\<forall>k\<in>fst ` set (AList.update k' v al). fst p < k"
      by (simp add: dom_update)
    moreover have "sorted_wrt (<) (map fst (AList.update k' v al))"
      using Cons by simp
    ultimately show ?thesis using False by simp
  qed
qed

lemma time_state_dict_snoc:
  "time_state_dict (ss @ [s]) = AList.update (timestamp s) s (time_state_dict ss)"
  by (simp add: time_state_dict_def)

lemma sorted_time_state_dict:
  "sorted (map timestamp ss) \<Longrightarrow> sorted_wrt (<) (map fst (time_state_dict ss))"
proof (induction ss rule: rev_induct)
  case Nil
  then show ?case by (simp add: time_state_dict_def)
next
  case (snoc s ss)
  have s: "sorted (map timestamp ss)" and le: "\<forall>x\<in>set ss. timestamp x \<le> timestamp s"
    using snoc.prems by (auto simp: sorted_append)
  have "\<forall>k\<in>fst ` set (time_state_dict ss). k \<le> timestamp s"
    using le by (auto simp: keys_time_state_dict)
  then show ?case
    using snoc.IH [OF s] by (simp add: time_state_dict_snoc sorted_keys_update)
qed

text \<open>
  C7, as amended. The dict that the interpolation works on has one entry for each
  timestamp of the sequence, and the entry holds the last state of the sequence with
  that timestamp. Its keys are strictly ascending when the states of the sequence are
  in non-decreasing timestamp order.
\<close>

theorem timeline_sorted_for_sorted_input:
  "distinct (map fst (time_state_dict ss))
   \<and> fst ` set (time_state_dict ss) = timestamp ` set ss
   \<and> (\<forall>t s. (t, s) \<in> set (time_state_dict ss) \<longrightarrow>
          s = last (filter (\<lambda>s. timestamp s = t) ss))
   \<and> (sorted (map timestamp ss) \<longrightarrow> sorted_wrt (<) (map fst (time_state_dict ss)))"
  using distinct_time_state_dict keys_time_state_dict time_state_dict_entry
    sorted_time_state_dict by blast

theorem timeline_sorted_for_sorted_input_witness:
  "time_state_dict
     [\<lparr>timestamp = 0, state_vector = [1], other = ()\<rparr>,
      \<lparr>timestamp = 0, state_vector = [2], other = ()\<rparr>,
      \<lparr>timestamp = 10, state_vector = [3], other = ()\<rparr>]
   = [(0, \<lparr>timestamp = 0, state_vector = [2], other = ()\<rparr>),
      (10, \<lparr>timestamp = 10, state_vector = [3], other = ()\<rparr>)]
   \<and> sorted_wrt (<) (map fst (time_state_dict
     [\<lparr>timestamp = 0, state_vector = [1], other = ()\<rparr>,
      \<lparr>timestamp = 0, state_vector = [2], other = ()\<rparr>,
      \<lparr>timestamp = 10, state_vector = [3], other = ()\<rparr>]))"
proof -
  let ?ss = "[\<lparr>timestamp = 0, state_vector = [1], other = ()\<rparr>,
      \<lparr>timestamp = 0, state_vector = [2], other = ()\<rparr>,
      \<lparr>timestamp = 10, state_vector = [3], other = ()\<rparr>]"
  have s: "sorted (map timestamp ?ss)" by simp
  have e: "time_state_dict ?ss = [(0, \<lparr>timestamp = 0, state_vector = [2], other = ()\<rparr>),
      (10, \<lparr>timestamp = 10, state_vector = [3], other = ()\<rparr>)]"
    by (simp add: time_state_dict_def)
  show ?thesis
    using timeline_sorted_for_sorted_input [of ?ss] s e by blast
qed

text \<open>
  C7 as stated fails: the keys keep the order in which the timestamps first occur in
  the sequence, so the states at 10, 0, 20 give the keys 10, 0, 20.
\<close>

theorem timeline_unsorted_counterexample:
  "\<not> sorted (map fst (time_state_dict
     [\<lparr>timestamp = 10, state_vector = [5], other = ()\<rparr>,
      \<lparr>timestamp = 0, state_vector = [0], other = ()\<rparr>,
      \<lparr>timestamp = 20, state_vector = [2], other = ()\<rparr>]))"
  by (simp add: time_state_dict_def)

section \<open>The predecessor cursor: properties\<close>

lemma inner_fun_dropWhile:
  "inner_fun t (b, a, rest) =
     (case dropWhile (\<lambda>p. timestamp (snd p) < t) ((b, a) # rest) of
        [] \<Rightarrow> (Inl StopIteration, (fst (last ((b, a) # rest)), snd (last ((b, a) # rest)), []))
      | p # rest' \<Rightarrow> (Inr (fst p), (fst p, snd p, rest')))"
proof (induction rest arbitrary: b a)
  case Nil
  then show ?case by simp
next
  case (Cons p rest)
  show ?case
  proof (cases "timestamp a < t")
    case True
    have 1: "inner_fun t (b, a, p # rest) = inner_fun t (fst p, snd p, rest)"
      using True by simp
    have 2: "dropWhile (\<lambda>p. timestamp (snd p) < t) ((b, a) # p # rest)
               = dropWhile (\<lambda>p. timestamp (snd p) < t) ((fst p, snd p) # rest)"
      using True by simp
    have 3: "last ((b, a) # p # rest) = last ((fst p, snd p) # rest)"
      by simp
    show ?thesis
      by (simp only: 1 2 3 Cons.IH)
  next
    case False
    then show ?thesis by simp
  qed
qed

lemma find_dropWhile_mono:
  "t \<le> t' \<Longrightarrow>
     find (\<lambda>p. t' \<le> f p) (dropWhile (\<lambda>p. f p < t) xs) = find (\<lambda>p. t' \<le> f p) xs"
  for t :: int
  by (induction xs) auto

lemma find_None_mono:
  "t \<le> t' \<Longrightarrow> dropWhile (\<lambda>p. f p < t) xs = [] \<Longrightarrow> find (\<lambda>p. t' \<le> f p) xs = None"
  for t :: int
  by (induction xs) (auto split: if_splits)

lemma first_pair_dropWhile:
  "(case dropWhile (\<lambda>p. f p < t) xs of [] \<Rightarrow> None | p # rest \<Rightarrow> Some p)
     = find (\<lambda>p. t \<le> f p) xs"
  for t :: int
  by (induction xs) auto

lemma inner_fun_result:
  "fst (inner_fun t (b, a, rest)) =
     (case find (\<lambda>p. t \<le> timestamp (snd p)) ((b, a) # rest) of
        None \<Rightarrow> Inl StopIteration
      | Some p \<Rightarrow> Inr (fst p))"
  by (induction rest arbitrary: b a) auto

lemma inner_fun_cursor:
  assumes "inner_fun t (b, a, rest) = (r, (b', a', rest'))" and "t \<le> t'"
  shows "find (\<lambda>p. t' \<le> timestamp (snd p)) ((b', a') # rest')
       = find (\<lambda>p. t' \<le> timestamp (snd p)) ((b, a) # rest)"
proof (cases "dropWhile (\<lambda>p. timestamp (snd p) < t) ((b, a) # rest)")
  case Nil
  have "inner_fun t (b, a, rest)
          = (Inl StopIteration, (fst (last ((b, a) # rest)), snd (last ((b, a) # rest)), []))"
    by (simp only: inner_fun_dropWhile Nil list.case)
  then have c: "(b', a') = last ((b, a) # rest)" "rest' = []"
    using assms(1) by (auto simp: prod_eq_iff)
  have all: "\<forall>p\<in>set ((b, a) # rest). timestamp (snd p) < t"
    using Nil by (simp only: dropWhile_eq_Nil_conv)
  have "last ((b, a) # rest) \<in> set ((b, a) # rest)" by (rule last_in_set) simp
  then have "timestamp a' < t" using all c(1) by (metis snd_conv)
  then have "find (\<lambda>p. t' \<le> timestamp (snd p)) ((b', a') # rest') = None"
    using c(2) assms(2) by simp
  moreover have "find (\<lambda>p. t' \<le> timestamp (snd p)) ((b, a) # rest) = None"
    using find_None_mono [OF assms(2) Nil] .
  ultimately show ?thesis by simp
next
  case (Cons p ps)
  have "inner_fun t (b, a, rest) = (Inr (fst p), (fst p, snd p, ps))"
    by (simp only: inner_fun_dropWhile Cons list.case)
  then have "(b', a') = p" "rest' = ps"
    using assms(1) by (auto simp: prod_eq_iff)
  then have c: "(b', a') # rest' = dropWhile (\<lambda>p. timestamp (snd p) < t) ((b, a) # rest)"
    using Cons by simp
  show ?thesis
    unfolding c using find_dropWhile_mono [OF assms(2)] .
qed

lemma calls_find:
  "sorted ts \<Longrightarrow>
     calls (b, a, rest) ts =
       map (\<lambda>t. case find (\<lambda>p. t \<le> timestamp (snd p)) ((b, a) # rest) of
                   None \<Rightarrow> Inl StopIteration
                 | Some p \<Rightarrow> Inr (fst p)) ts"
proof (induction ts arbitrary: b a rest)
  case Nil
  then show ?case by simp
next
  case (Cons t ts)
  obtain r b' a' rest' where i: "inner_fun t (b, a, rest) = (r, (b', a', rest'))"
    by (metis prod_cases3)
  have r: "r = (case find (\<lambda>p. t \<le> timestamp (snd p)) ((b, a) # rest) of
        None \<Rightarrow> Inl StopIteration | Some p \<Rightarrow> Inr (fst p))"
    using inner_fun_result [of t b a rest] i by simp
  have s: "sorted ts" and le: "\<forall>t'\<in>set ts. t \<le> t'"
    using Cons.prems by auto
  have "calls (b', a', rest') ts =
       map (\<lambda>t. case find (\<lambda>p. t \<le> timestamp (snd p)) ((b', a') # rest') of
                   None \<Rightarrow> Inl StopIteration
                 | Some p \<Rightarrow> Inr (fst p)) ts"
    using Cons.IH [OF s] .
  also have "\<dots> = map (\<lambda>t. case find (\<lambda>p. t \<le> timestamp (snd p)) ((b, a) # rest) of
                   None \<Rightarrow> Inl StopIteration
                 | Some p \<Rightarrow> Inr (fst p)) ts"
    using le inner_fun_cursor [OF i] by (intro map_cong) simp_all
  finally show ?case using i r by simp
qed

lemma pairwise_Nil_iff: "pairwise_iter xs = [] \<longleftrightarrow> length xs < 2"
  by (induction xs rule: pairwise_iter.induct) auto

lemma snd_last_pairwise: "2 \<le> length xs \<Longrightarrow> snd (last (pairwise_iter xs)) = last xs"
proof (induction xs rule: pairwise_iter.induct)
  case (1 a b xs)
  show ?case
  proof (cases xs)
    case Nil
    then show ?thesis by simp
  next
    case (Cons c cs)
    then have "snd (last (pairwise_iter (b # xs))) = last (b # xs)"
      using "1.IH" by simp
    then show ?thesis using Cons by simp
  qed
qed simp_all

lemma snd_pairwise_subset: "p \<in> set (pairwise_iter xs) \<Longrightarrow> snd p \<in> set xs \<and> fst p \<in> set xs"
  by (induction xs rule: pairwise_iter.induct) auto

text \<open>
  C6, as amended. For a cursor over at least two states, called with non-decreasing
  times: a call with \<open>t\<close> not exceeding the timestamp of the last state returns the
  earlier element of the first consecutive pair whose later timestamp is \<open>\<ge> t\<close>; a
  call with \<open>t\<close> exceeding every timestamp of the sequence raises \<^verbatim>\<open>StopIteration\<close>; when
  the states are in non-decreasing timestamp order, exceeding the last timestamp is
  exceeding every timestamp.
\<close>

theorem predecessor_cursor:
  assumes "2 \<le> length ss" and "sorted ts"
  shows "\<exists>c. get_previous_state ss = Inr c \<and> length (calls c ts) = length ts \<and>
     (\<forall>i<length ts.
        (ts ! i \<le> timestamp (last ss) \<longrightarrow>
           (\<exists>p. find (\<lambda>p. ts ! i \<le> timestamp (snd p)) (pairwise_iter ss) = Some p
                \<and> calls c ts ! i = Inr (fst p)))
      \<and> ((\<forall>s\<in>set ss. timestamp s < ts ! i) \<longrightarrow> calls c ts ! i = Inl StopIteration)
      \<and> (sorted (map timestamp ss) \<and> timestamp (last ss) < ts ! i \<longrightarrow>
           calls c ts ! i = Inl StopIteration))"
proof -
  have ne: "pairwise_iter ss \<noteq> []"
    using assms(1) by (simp add: pairwise_Nil_iff)
  then obtain b a rest where p: "pairwise_iter ss = (b, a) # rest"
    by (cases "pairwise_iter ss") auto
  then have g: "get_previous_state ss = Inr (b, a, rest)"
    by (simp add: get_previous_state_def)
  let ?r = "\<lambda>t. case find (\<lambda>p. t \<le> timestamp (snd p)) (pairwise_iter ss) of
                   None \<Rightarrow> Inl StopIteration | Some p \<Rightarrow> Inr (fst p)"
  have c: "calls (b, a, rest) ts = map ?r ts"
    using calls_find [OF assms(2), of b a rest] p by simp
  have last_pair: "last (pairwise_iter ss) \<in> set (pairwise_iter ss)"
    using ne by simp
  have hit: "\<exists>p. find (\<lambda>p. t \<le> timestamp (snd p)) (pairwise_iter ss) = Some p"
    if "t \<le> timestamp (last ss)" for t
  proof -
    have "t \<le> timestamp (snd (last (pairwise_iter ss)))"
      using that snd_last_pairwise [OF assms(1)] by simp
    then have "find (\<lambda>p. t \<le> timestamp (snd p)) (pairwise_iter ss) \<noteq> None"
      using last_pair by (metis (mono_tags, lifting) find_None_iff)
    then show ?thesis by auto
  qed
  have miss: "find (\<lambda>p. t \<le> timestamp (snd p)) (pairwise_iter ss) = None"
    if "\<forall>s\<in>set ss. timestamp s < t" for t
    using that snd_pairwise_subset by (fastforce simp: find_None_iff)
  have top: "\<forall>s\<in>set ss. timestamp s < t"
    if "sorted (map timestamp ss)" "timestamp (last ss) < t" for t
  proof
    fix s assume "s \<in> set ss"
    then obtain i where i: "i < length ss" "ss ! i = s" by (auto simp: in_set_conv_nth)
    have "ss \<noteq> []" using i by auto
    then have "last ss = ss ! (length ss - 1)" by (rule last_conv_nth)
    moreover have "map timestamp ss ! i \<le> map timestamp ss ! (length ss - 1)"
      using that(1) i(1) by (intro sorted_nth_mono) auto
    ultimately show "timestamp s < t" using that(2) i by simp
  qed
  have each: "(ts ! i \<le> timestamp (last ss) \<longrightarrow>
           (\<exists>p. find (\<lambda>p. ts ! i \<le> timestamp (snd p)) (pairwise_iter ss) = Some p
                \<and> calls (b, a, rest) ts ! i = Inr (fst p)))
      \<and> ((\<forall>s\<in>set ss. timestamp s < ts ! i) \<longrightarrow> calls (b, a, rest) ts ! i = Inl StopIteration)
      \<and> (sorted (map timestamp ss) \<and> timestamp (last ss) < ts ! i \<longrightarrow>
           calls (b, a, rest) ts ! i = Inl StopIteration)"
    if i: "i < length ts" for i
  proof -
    have ci: "calls (b, a, rest) ts ! i = ?r (ts ! i)"
      using c i by simp
    have 1: "\<exists>p. find (\<lambda>p. ts ! i \<le> timestamp (snd p)) (pairwise_iter ss) = Some p
                \<and> calls (b, a, rest) ts ! i = Inr (fst p)"
      if le: "ts ! i \<le> timestamp (last ss)"
    proof -
      obtain p where "find (\<lambda>p. ts ! i \<le> timestamp (snd p)) (pairwise_iter ss) = Some p"
        using hit [OF le] by blast
      then show ?thesis using ci by simp
    qed
    have 2: "calls (b, a, rest) ts ! i = Inl StopIteration"
      if "\<forall>s\<in>set ss. timestamp s < ts ! i"
      using miss [OF that] ci by simp
    have 3: "calls (b, a, rest) ts ! i = Inl StopIteration"
      if "sorted (map timestamp ss) \<and> timestamp (last ss) < ts ! i"
      using that top 2 by blast
    show ?thesis using 1 2 3 by blast
  qed
  have "length (calls (b, a, rest) ts) = length ts"
    using c by simp
  then show ?thesis
    using g each by blast
qed

theorem predecessor_cursor_witness:
  "get_previous_state
     [\<lparr>timestamp = 0, state_vector = [], other = ()\<rparr>,
      \<lparr>timestamp = 10, state_vector = [], other = ()\<rparr>,
      \<lparr>timestamp = 20, state_vector = [], other = ()\<rparr>]
   = Inr (\<lparr>timestamp = 0, state_vector = [], other = ()\<rparr>,
          \<lparr>timestamp = 10, state_vector = [], other = ()\<rparr>,
          [(\<lparr>timestamp = 10, state_vector = [], other = ()\<rparr>,
            \<lparr>timestamp = 20, state_vector = [], other = ()\<rparr>)])
   \<and> calls (\<lparr>timestamp = 0, state_vector = [], other = ()\<rparr>,
          \<lparr>timestamp = 10, state_vector = [], other = ()\<rparr>,
          [(\<lparr>timestamp = 10, state_vector = [], other = ()\<rparr>,
            \<lparr>timestamp = 20, state_vector = [], other = ()\<rparr>)]) [5, 15, 25] ! 1
       = Inr \<lparr>timestamp = 10, state_vector = [], other = ()\<rparr>
   \<and> calls (\<lparr>timestamp = 0, state_vector = [], other = ()\<rparr>,
          \<lparr>timestamp = 10, state_vector = [], other = ()\<rparr>,
          [(\<lparr>timestamp = 10, state_vector = [], other = ()\<rparr>,
            \<lparr>timestamp = 20, state_vector = [], other = ()\<rparr>)]) [5, 15, 25] ! 2
       = Inl StopIteration"
proof -
  let ?ss = "[\<lparr>timestamp = 0, state_vector = [], other = ()\<rparr>,
      \<lparr>timestamp = 10, state_vector = [], other = ()\<rparr>,
      \<lparr>timestamp = 20, state_vector = [], other = ()\<rparr>]"
  let ?ts = "[5, 15, 25] :: int list"
  have h1: "2 \<le> length ?ss" by simp
  have h2: "sorted ?ts" by simp
  have g: "get_previous_state ?ss
        = Inr (\<lparr>timestamp = 0, state_vector = [], other = ()\<rparr>,
          \<lparr>timestamp = 10, state_vector = [], other = ()\<rparr>,
          [(\<lparr>timestamp = 10, state_vector = [], other = ()\<rparr>,
            \<lparr>timestamp = 20, state_vector = [], other = ()\<rparr>)])"
    by (simp add: get_previous_state_def)
  have f: "find (\<lambda>p. ?ts ! 1 \<le> timestamp (snd p)) (pairwise_iter ?ss)
        = Some (\<lparr>timestamp = 10, state_vector = [], other = ()\<rparr>,
                \<lparr>timestamp = 20, state_vector = [], other = ()\<rparr>)"
    by simp
  have a1: "?ts ! 1 \<le> timestamp (last ?ss)" by simp
  have a2: "sorted (map timestamp ?ss) \<and> timestamp (last ?ss) < ?ts ! 2" by simp
  have i1: "1 < length ?ts" and i2: "2 < length ?ts" by simp_all
  from predecessor_cursor [OF h1 h2] g
  have all: "\<forall>i<length ?ts.
        (?ts ! i \<le> timestamp (last ?ss) \<longrightarrow>
           (\<exists>p. find (\<lambda>p. ?ts ! i \<le> timestamp (snd p)) (pairwise_iter ?ss) = Some p
                \<and> calls (\<lparr>timestamp = 0, state_vector = [], other = ()\<rparr>,
          \<lparr>timestamp = 10, state_vector = [], other = ()\<rparr>,
          [(\<lparr>timestamp = 10, state_vector = [], other = ()\<rparr>,
            \<lparr>timestamp = 20, state_vector = [], other = ()\<rparr>)]) ?ts ! i = Inr (fst p)))
      \<and> (sorted (map timestamp ?ss) \<and> timestamp (last ?ss) < ?ts ! i \<longrightarrow>
           calls (\<lparr>timestamp = 0, state_vector = [], other = ()\<rparr>,
          \<lparr>timestamp = 10, state_vector = [], other = ()\<rparr>,
          [(\<lparr>timestamp = 10, state_vector = [], other = ()\<rparr>,
            \<lparr>timestamp = 20, state_vector = [], other = ()\<rparr>)]) ?ts ! i = Inl StopIteration)"
    by auto
  from all i1 a1 f
  have r1: "calls (\<lparr>timestamp = 0, state_vector = [], other = ()\<rparr>,
          \<lparr>timestamp = 10, state_vector = [], other = ()\<rparr>,
          [(\<lparr>timestamp = 10, state_vector = [], other = ()\<rparr>,
            \<lparr>timestamp = 20, state_vector = [], other = ()\<rparr>)]) ?ts ! 1
       = Inr \<lparr>timestamp = 10, state_vector = [], other = ()\<rparr>"
    by (metis option.inject fst_conv)
  from all i2 a2
  have r2: "calls (\<lparr>timestamp = 0, state_vector = [], other = ()\<rparr>,
          \<lparr>timestamp = 10, state_vector = [], other = ()\<rparr>,
          [(\<lparr>timestamp = 10, state_vector = [], other = ()\<rparr>,
            \<lparr>timestamp = 20, state_vector = [], other = ()\<rparr>)]) ?ts ! 2
       = Inl StopIteration"
    by blast
  show ?thesis using g r1 r2 by blast
qed

text \<open>
  C6 as stated fails on a sequence that is not in timestamp order. Over the states at
  0, 20, 10 the call with \<open>t = 15\<close>, which exceeds the timestamp of the last state,
  returns the state at 0. Over the states at 20, 0, 10 the call with \<open>t = 15\<close>, which
  does not exceed the greatest timestamp, finds no pair and raises.
\<close>

theorem predecessor_cursor_counterexample:
  "timestamp (last [\<lparr>timestamp = 0, state_vector = [], other = ()\<rparr>,
      \<lparr>timestamp = 20, state_vector = [], other = ()\<rparr>,
      \<lparr>timestamp = 10, state_vector = [], other = ()\<rparr>]) < 15
   \<and> get_previous_state
     [\<lparr>timestamp = 0, state_vector = [], other = ()\<rparr>,
      \<lparr>timestamp = 20, state_vector = [], other = ()\<rparr>,
      \<lparr>timestamp = 10, state_vector = [], other = ()\<rparr>]
     = Inr (\<lparr>timestamp = 0, state_vector = [], other = ()\<rparr>,
            \<lparr>timestamp = 20, state_vector = [], other = ()\<rparr>,
            [(\<lparr>timestamp = 20, state_vector = [], other = ()\<rparr>,
              \<lparr>timestamp = 10, state_vector = [], other = ()\<rparr>)])
   \<and> calls (\<lparr>timestamp = 0, state_vector = [], other = ()\<rparr>,
            \<lparr>timestamp = 20, state_vector = [], other = ()\<rparr>,
            [(\<lparr>timestamp = 20, state_vector = [], other = ()\<rparr>,
              \<lparr>timestamp = 10, state_vector = [], other = ()\<rparr>)]) [15]
     = [Inr \<lparr>timestamp = 0, state_vector = [], other = ()\<rparr>]
   \<and> get_previous_state
     [\<lparr>timestamp = 20, state_vector = [], other = ()\<rparr>,
      \<lparr>timestamp = 0, state_vector = [], other = ()\<rparr>,
      \<lparr>timestamp = 10, state_vector = [], other = ()\<rparr>]
     = Inr (\<lparr>timestamp = 20, state_vector = [], other = ()\<rparr>,
            \<lparr>timestamp = 0, state_vector = [], other = ()\<rparr>,
            [(\<lparr>timestamp = 0, state_vector = [], other = ()\<rparr>,
              \<lparr>timestamp = 10, state_vector = [], other = ()\<rparr>)])
   \<and> calls (\<lparr>timestamp = 20, state_vector = [], other = ()\<rparr>,
            \<lparr>timestamp = 0, state_vector = [], other = ()\<rparr>,
            [(\<lparr>timestamp = 0, state_vector = [], other = ()\<rparr>,
              \<lparr>timestamp = 10, state_vector = [], other = ()\<rparr>)]) [15]
     = [Inl StopIteration]"
  by (simp add: get_previous_state_def)

section \<open>The computation on the states: what it returns\<close>

lemma py_max_eq: "tms \<noteq> [] \<Longrightarrow> py_max tms = Inr (Max (set tms))"
  by (cases tms) (simp_all add: Max.set_eq_fold [symmetric])

lemma py_min_eq: "tms \<noteq> [] \<Longrightarrow> py_min tms = Inr (Min (set tms))"
  by (cases tms) (simp_all add: Min.set_eq_fold [symmetric])

lemma filter_times_cases:
  assumes "tms \<noteq> []"
  shows "filter_times mn mx tms =
     (if \<forall>t\<in>set tms. mn \<le> t \<and> t \<le> mx then ([], Inr tms)
      else if filter (\<lambda>t. mn \<le> t \<and> t \<le> mx) tms = []
        then ([], Inl (IndexError (AllTimesOutside mn mx)))
        else ([OutsideTimeRange mn mx (set tms - set (filter (\<lambda>t. mn \<le> t \<and> t \<le> mx) tms))],
              Inr (filter (\<lambda>t. mn \<le> t \<and> t \<le> mx) tms)))"
proof -
  have fin: "finite (set tms)" "set tms \<noteq> {}" using assms by simp_all
  have 1: "mx < Max (set tms) \<longleftrightarrow> (\<exists>t\<in>set tms. mx < t)"
    using fin by (simp add: Max_gr_iff)
  have 2: "Min (set tms) < mn \<longleftrightarrow> (\<exists>t\<in>set tms. t < mn)"
    using fin by (simp add: Min_less_iff)
  have 3: "(mx < Max (set tms) \<or> Min (set tms) < mn) \<longleftrightarrow> \<not> (\<forall>t\<in>set tms. mn \<le> t \<and> t \<le> mx)"
    unfolding 1 2 by (meson not_le)
  show ?thesis
  proof (cases "\<forall>t\<in>set tms. mn \<le> t \<and> t \<le> mx")
    case True
    then have "\<not> (mx < Max (set tms) \<or> Min (set tms) < mn)" using 3 by simp
    then show ?thesis
      using True by (simp add: filter_times_def py_max_eq [OF assms] py_min_eq [OF assms])
  next
    case False
    then have d: "mx < Max (set tms) \<or> Min (set tms) < mn" using 3 by simp
    show ?thesis
    proof (cases "mx < Max (set tms)")
      case True
      then show ?thesis
        using False assms
        by (simp add: filter_times_def py_max_eq [OF assms] Let_def)
    next
      case nb: False
      then have "Min (set tms) < mn" using d by simp
      then show ?thesis
        using False nb assms
        by (simp add: filter_times_def py_max_eq [OF assms] py_min_eq [OF assms] Let_def)
    qed
  qed
qed

lemma set_times_to_interpolate:
  "set (times_to_interpolate tms d) = set tms - fst ` set d"
  by (auto simp: times_to_interpolate_def)

lemma sorted_times_to_interpolate: "sorted (times_to_interpolate tms d)"
  by (simp add: times_to_interpolate_def)

lemma distinct_times_to_interpolate: "distinct (times_to_interpolate tms d)"
  by (simp add: times_to_interpolate_def)

lemma lookup_all_total:
  "\<forall>t\<in>set ts. map_of d t \<noteq> None \<Longrightarrow> lookup_all d ts = Inr (map (\<lambda>t. the (map_of d t)) ts)"
  by (induction ts) auto

lemma map_of_fold_update_other:
  "t \<notin> k ` set its \<Longrightarrow> map_of (fold (\<lambda>it. AList.update (k it) (v it)) its d) t = map_of d t"
  by (induction its arbitrary: d) (auto simp: update_conv')

lemma map_of_fold_update_hit:
  "distinct (map k its) \<Longrightarrow> it \<in> set its \<Longrightarrow>
     map_of (fold (\<lambda>it. AList.update (k it) (v it)) its d) (k it) = Some (v it)"
proof (induction its arbitrary: d)
  case Nil
  then show ?case by simp
next
  case (Cons x its)
  show ?case
  proof (cases "it = x")
    case True
    have "k x \<notin> k ` set its" using Cons.prems(1) by auto
    then show ?thesis
      using True by (simp add: map_of_fold_update_other update_conv')
  next
    case False
    then show ?thesis using Cons by auto
  qed
qed

lemma synth_loop_fold:
  assumes "sorted (map snd its)"
    and "\<forall>it\<in>set its. find (\<lambda>p. snd it \<le> timestamp (snd p)) ((b, a) # rest) \<noteq> None"
  shows "synth_loop (b, a, rest) its out d =
     Inr (fold (\<lambda>it. AList.update (snd it)
                  (from_state (fst (the (find (\<lambda>p. snd it \<le> timestamp (snd p)) ((b, a) # rest))))
                     (snd it) (map (\<lambda>row. row ! fst it) out))) its d)"
  using assms
proof (induction its arbitrary: b a rest d)
  case Nil
  then show ?case by simp
next
  case (Cons it its)
  let ?F = "\<lambda>ps it. AList.update (snd it)
                  (from_state (fst (the (find (\<lambda>p. snd it \<le> timestamp (snd p)) ps)))
                     (snd it) (map (\<lambda>row. row ! fst it) out))"
  obtain r b' a' rest' where i: "inner_fun (snd it) (b, a, rest) = (r, (b', a', rest'))"
    by (metis prod_cases3)
  obtain p where f: "find (\<lambda>p. snd it \<le> timestamp (snd p)) ((b, a) # rest) = Some p"
    using Cons.prems(2) by auto
  have r: "r = Inr (fst p)"
    using inner_fun_result [of "snd it" b a rest] i f by simp
  have s: "sorted (map snd its)" and le: "\<forall>it'\<in>set its. snd it \<le> snd it'"
    using Cons.prems(1) by auto
  have same: "find (\<lambda>p. snd it' \<le> timestamp (snd p)) ((b', a') # rest')
            = find (\<lambda>p. snd it' \<le> timestamp (snd p)) ((b, a) # rest)"
    if "it' \<in> set its" for it'
    using inner_fun_cursor [OF i] le that by blast
  have ne: "\<forall>it'\<in>set its. find (\<lambda>p. snd it' \<le> timestamp (snd p)) ((b', a') # rest') \<noteq> None"
    using same Cons.prems(2) by simp
  have "synth_loop (b', a', rest') its out (?F ((b, a) # rest) it d)
      = Inr (fold (?F ((b', a') # rest')) its (?F ((b, a) # rest) it d))"
    using Cons.IH [OF s ne] .
  also have "fold (?F ((b', a') # rest')) its (?F ((b, a) # rest) it d)
           = fold (?F ((b, a) # rest)) its (?F ((b, a) # rest) it d)"
    using same by (intro fold_cong) auto
  finally have "synth_loop (b', a', rest') its out (?F ((b, a) # rest) it d)
      = Inr (fold (?F ((b, a) # rest)) (it # its) d)"
    by simp
  then show ?case
    using i r f by simp
qed

lemma StateVectors_uniform:
  assumes "vs \<noteq> []" and "\<forall>v\<in>set vs. length v = D"
  shows "StateVectors vs = Inr (map (\<lambda>i. map (\<lambda>v. v ! i) vs) [0 ..< D])"
proof -
  have "length (hd vs) = D" using assms by (cases vs) auto
  then show ?thesis
    using assms(2) by (simp add: StateVectors_def list_all_iff)
qed

lemma interp_output_column:
  assumes "nd \<le> length rows" and "i < length xs"
  shows "\<exists>out. interp_output nd xs xp rows = Inr out
           \<and> map (\<lambda>row. row ! i) out = map (\<lambda>e. np_interp1 (xs ! i) xp (rows ! e)) [0 ..< nd]"
  using assms by (simp add: interp_output_def np_interp_def o_def)

lemma find_pair_upto_last:
  assumes "2 \<le> length ss" and "t \<le> timestamp (last ss)"
  shows "find (\<lambda>p. t \<le> timestamp (snd p)) (pairwise_iter ss) \<noteq> None"
proof -
  have ne: "pairwise_iter ss \<noteq> []"
    using assms(1) by (simp add: pairwise_Nil_iff)
  then have "last (pairwise_iter ss) \<in> set (pairwise_iter ss)" by simp
  moreover have "t \<le> timestamp (snd (last (pairwise_iter ss)))"
    using assms(2) snd_last_pairwise [OF assms(1)] by simp
  ultimately show ?thesis
    by (metis (mono_tags, lifting) find_None_iff)
qed

lemma synthesize_result:
  assumes two: "2 \<le> length ss"
    and dims: "\<forall>s\<in>set ss. length (state_vector s) = D"
    and srt: "sorted tti" and dst: "distinct tti"
    and upto: "\<forall>t\<in>set tti. t \<le> timestamp (last ss)"
  shows "\<exists>d'. synthesize posix_timestamp ss (time_state_dict ss) tti = Inr d'
     \<and> (\<forall>t. t \<notin> set tti \<longrightarrow> map_of d' t = map_of (time_state_dict ss) t)
     \<and> (\<forall>t\<in>set tti. map_of d' t =
           Some (from_state (fst (the (find (\<lambda>p. t \<le> timestamp (snd p)) (pairwise_iter ss)))) t
                  (map (\<lambda>e. np_interp1 (posix_timestamp t)
                               (map (\<lambda>kv. posix_timestamp (fst kv)) (time_state_dict ss))
                               (map (\<lambda>kv. state_vector (snd kv) ! e) (time_state_dict ss)))
                       [0 ..< D])))"
proof -
  define d where "d = time_state_dict ss"
  define vs where "vs = map (\<lambda>kv. state_vector (snd kv)) d"
  define xp where "xp = map (\<lambda>kv. posix_timestamp (fst kv)) d"
  define xs where "xs = map posix_timestamp tti"
  define rows where "rows = map (\<lambda>i. map (\<lambda>v. v ! i) vs) [0 ..< D]"
  define out where "out = map (\<lambda>e. np_interp xs xp (rows ! e)) [0 ..< D]"
  have ssne: "ss \<noteq> []" using two by auto
  have "fst ` set d \<noteq> {}"
    using ssne by (simp add: d_def keys_time_state_dict)
  then have dne: "d \<noteq> []" by auto
  have vals: "snd kv \<in> set ss" if "kv \<in> set d" for kv
  proof -
    have "(fst kv, snd kv) \<in> set (time_state_dict ss)"
      using that by (simp add: d_def)
    then show ?thesis
      using time_state_dict_entry by blast
  qed
  have "\<forall>v\<in>set vs. length v = D"
    using vals dims by (auto simp: vs_def)
  moreover have "vs \<noteq> []" using dne by (simp add: vs_def)
  ultimately have sv: "StateVectors vs = Inr rows"
    unfolding rows_def by (intro StateVectors_uniform) auto
  have nd: "ndim (last ss) = D"
    using dims ssne by (simp add: ndim_def)
  have io: "interp_output D xs xp rows = Inr out"
    by (simp add: interp_output_def rows_def out_def)
  obtain b a rest where pw: "pairwise_iter ss = (b, a) # rest"
    using two by (cases "pairwise_iter ss") (auto simp: pairwise_Nil_iff)
  then have gp: "get_previous_state ss = Inr (b, a, rest)"
    by (simp add: get_previous_state_def)
  let ?its = "enumerate 0 tti"
  let ?v = "\<lambda>it. from_state (fst (the (find (\<lambda>p. snd it \<le> timestamp (snd p)) ((b, a) # rest))))
                     (snd it) (map (\<lambda>row. row ! fst it) out)"
  define d' where "d' = fold (\<lambda>it. AList.update (snd it) (?v it)) ?its d"
  have m: "map snd ?its = tti" by simp
  have hit: "\<forall>it\<in>set ?its. find (\<lambda>p. snd it \<le> timestamp (snd p)) ((b, a) # rest) \<noteq> None"
  proof
    fix it assume "it \<in> set ?its"
    then have "snd it \<in> set tti" by (metis m image_eqI set_map)
    then show "find (\<lambda>p. snd it \<le> timestamp (snd p)) ((b, a) # rest) \<noteq> None"
      using find_pair_upto_last [OF two] upto pw by simp
  qed
  have sl: "synth_loop (b, a, rest) ?its out d = Inr d'"
    unfolding d'_def using srt hit by (intro synth_loop_fold) (simp_all only: m)
  have syn: "synthesize posix_timestamp ss (time_state_dict ss) tti = Inr d'"
    using sv io gp sl nd
    by (simp add: synthesize_def d_def [symmetric] vs_def [symmetric] xp_def [symmetric]
        xs_def [symmetric])
  have other: "map_of d' t = map_of d t" if "t \<notin> set tti" for t
  proof -
    have "t \<notin> snd ` set ?its" using that m by (metis set_map)
    then show ?thesis
      unfolding d'_def by (rule map_of_fold_update_other)
  qed
  have new: "map_of d' t =
           Some (from_state (fst (the (find (\<lambda>p. t \<le> timestamp (snd p)) (pairwise_iter ss)))) t
                  (map (\<lambda>e. np_interp1 (posix_timestamp t) xp
                               (map (\<lambda>kv. state_vector (snd kv) ! e) d))
                       [0 ..< D]))"
    if t: "t \<in> set tti" for t
  proof -
    obtain i where i: "i < length tti" "tti ! i = t"
      using t by (auto simp: in_set_conv_nth)
    have mem: "(i, t) \<in> set ?its"
      using i by (auto simp: in_set_enumerate_eq)
    have "distinct (map snd ?its)" using dst by (simp only: m)
    then have "map_of d' (snd (i, t)) = Some (?v (i, t))"
      unfolding d'_def using mem by (rule map_of_fold_update_hit)
    moreover have "map (\<lambda>row. row ! i) out
        = map (\<lambda>e. np_interp1 (posix_timestamp t) xp (map (\<lambda>kv. state_vector (snd kv) ! e) d))
            [0 ..< D]"
      using i by (simp add: out_def np_interp_def xs_def rows_def vs_def o_def)
    ultimately show ?thesis by (simp add: pw)
  qed
  show ?thesis
    using syn other new unfolding d_def xp_def by blast
qed

text \<open>
  The result of the computation when the sequence is not empty, some requested time is
  within the bounds taken from the first and the last state, and all state vectors have
  one length: no exception is raised, and the states returned are, for the requested
  times within the bounds and in the order requested, the dict entry where the time is
  a key, and otherwise a copy of the state the cursor returns, with the new timestamp
  and the interpolated column.
\<close>

lemma interpolate_states_result:
  assumes ne: "ss \<noteq> []"
    and inr: "filter (\<lambda>t. timestamp (hd ss) \<le> t \<and> t \<le> timestamp (last ss)) tms \<noteq> []"
    and dims: "\<forall>s\<in>set ss. length (state_vector s) = D"
  shows "interpolate_states posix_timestamp ss tms =
     (if \<forall>t\<in>set tms. timestamp (hd ss) \<le> t \<and> t \<le> timestamp (last ss) then []
      else [OutsideTimeRange (timestamp (hd ss)) (timestamp (last ss))
              (set tms - set (filter (\<lambda>t. timestamp (hd ss) \<le> t \<and> t \<le> timestamp (last ss)) tms))],
      Inr (map (\<lambda>t. case map_of (time_state_dict ss) t of
                       Some s \<Rightarrow> s
                     | None \<Rightarrow>
                         from_state
                           (fst (the (find (\<lambda>p. t \<le> timestamp (snd p)) (pairwise_iter ss)))) t
                           (map (\<lambda>e. np_interp1 (posix_timestamp t)
                                   (map (\<lambda>kv. posix_timestamp (fst kv)) (time_state_dict ss))
                                   (map (\<lambda>kv. state_vector (snd kv) ! e) (time_state_dict ss)))
                              [0 ..< D]))
             (filter (\<lambda>t. timestamp (hd ss) \<le> t \<and> t \<le> timestamp (last ss)) tms)))"
proof -
  define mn where "mn = timestamp (hd ss)"
  define mx where "mx = timestamp (last ss)"
  define d where "d = time_state_dict ss"
  define tms' where "tms' = filter (\<lambda>t. mn \<le> t \<and> t \<le> mx) tms"
  define ws where "ws = (if \<forall>t\<in>set tms. mn \<le> t \<and> t \<le> mx then []
      else [OutsideTimeRange mn mx (set tms - set tms')])"
  define g where "g = (\<lambda>t. case map_of d t of
                       Some s \<Rightarrow> s
                     | None \<Rightarrow>
                         from_state
                           (fst (the (find (\<lambda>p. t \<le> timestamp (snd p)) (pairwise_iter ss)))) t
                           (map (\<lambda>e. np_interp1 (posix_timestamp t)
                                   (map (\<lambda>kv. posix_timestamp (fst kv)) d)
                                   (map (\<lambda>kv. state_vector (snd kv) ! e) d))
                              [0 ..< D]))"
  define tti where "tti = times_to_interpolate tms' d"
  have tne: "tms \<noteq> []" using inr by auto
  have t'ne: "tms' \<noteq> []" using inr by (simp add: tms'_def mn_def mx_def)
  have all: "tms' = tms" if "\<forall>t\<in>set tms. mn \<le> t \<and> t \<le> mx"
    using that by (simp add: tms'_def)
  have ft: "filter_times mn mx tms = (ws, Inr tms')"
    using t'ne all
    by (simp add: filter_times_cases [OF tne] ws_def tms'_def [symmetric])
  have rng: "mn \<le> t \<and> t \<le> mx" if "t \<in> set tms'" for t
    using that by (simp add: tms'_def)
  have keys: "map_of d t = None \<longleftrightarrow> t \<notin> timestamp ` set ss" for t
    by (simp add: d_def map_of_eq_None_iff keys_time_state_dict)
  have tti_set: "set tti = set tms' - timestamp ` set ss"
    by (simp add: tti_def set_times_to_interpolate d_def keys_time_state_dict)
  have "\<exists>d'. (if 0 < length tti then synthesize posix_timestamp ss d tti else Inr d) = Inr d'
         \<and> (\<forall>t\<in>set tms'. map_of d' t = Some (g t))"
  proof (cases "tti = []")
    case True
    then have "\<forall>t\<in>set tms'. t \<in> timestamp ` set ss"
      using tti_set by auto
    then have "\<forall>t\<in>set tms'. map_of d t \<noteq> None"
      using keys by simp
    then have "\<forall>t\<in>set tms'. map_of d t = Some (g t)"
      by (auto simp: g_def split: option.splits)
    then show ?thesis using True by simp
  next
    case False
    then obtain t0 where t0: "t0 \<in> set tms'" "t0 \<notin> timestamp ` set ss"
      using tti_set by (metis DiffE last_in_set)
    have two: "2 \<le> length ss"
    proof (rule ccontr)
      assume "\<not> 2 \<le> length ss"
      then obtain s where s: "ss = [s]"
        using ne by (cases ss; cases "tl ss") auto
      then have "t0 = timestamp s"
        using rng [OF t0(1)] by (simp add: mn_def mx_def)
      then show False using t0(2) s by simp
    qed
    have upto: "\<forall>t\<in>set tti. t \<le> timestamp (last ss)"
      using tti_set rng by (auto simp: mx_def)
    obtain d' where d': "synthesize posix_timestamp ss (time_state_dict ss) tti = Inr d'"
      and other: "\<forall>t. t \<notin> set tti \<longrightarrow> map_of d' t = map_of (time_state_dict ss) t"
      and new: "\<forall>t\<in>set tti. map_of d' t =
           Some (from_state (fst (the (find (\<lambda>p. t \<le> timestamp (snd p)) (pairwise_iter ss)))) t
                  (map (\<lambda>e. np_interp1 (posix_timestamp t)
                               (map (\<lambda>kv. posix_timestamp (fst kv)) (time_state_dict ss))
                               (map (\<lambda>kv. state_vector (snd kv) ! e) (time_state_dict ss)))
                       [0 ..< D]))"
      using synthesize_result [OF two dims _ _ upto]
        sorted_times_to_interpolate [of tms' d] distinct_times_to_interpolate [of tms' d]
      unfolding tti_def [symmetric] by blast
    have "map_of d' t = Some (g t)" if t: "t \<in> set tms'" for t
    proof (cases "t \<in> set tti")
      case True
      then have "map_of d t = None" using tti_set keys by simp
      then show ?thesis using new True by (simp add: g_def d_def)
    next
      case False
      then have "t \<in> timestamp ` set ss" using tti_set t by auto
      then have "map_of d t \<noteq> None" using keys by simp
      then obtain s where "map_of d t = Some s" by auto
      then show ?thesis using other False by (simp add: g_def d_def)
    qed
    then show ?thesis using d' False by (simp add: d_def)
  qed
  then obtain d' where d': "(if 0 < length tti then synthesize posix_timestamp ss d tti else Inr d) = Inr d'"
    and look: "\<forall>t\<in>set tms'. map_of d' t = Some (g t)"
    by blast
  have "lookup_all d' tms' = Inr (map (\<lambda>t. the (map_of d' t)) tms')"
    using look by (intro lookup_all_total) simp
  also have "map (\<lambda>t. the (map_of d' t)) tms' = map g tms'"
    using look by (intro map_cong) simp_all
  finally have la: "lookup_all d' tms' = Inr (map g tms')" .
  have "interpolate_states posix_timestamp ss tms =
          (ws, case (if 0 < length tti then synthesize posix_timestamp ss d tti else Inr d) of
                 Inl e \<Rightarrow> Inl e | Inr d' \<Rightarrow> lookup_all d' tms')"
    using ne ft
    by (simp add: interpolate_states_def Let_def mn_def [symmetric] mx_def [symmetric]
        d_def [symmetric] tti_def [symmetric])
  also have "\<dots> = (ws, Inr (map g tms'))"
    by (simp only: d' la sum.case)
  finally have "interpolate_states posix_timestamp ss tms = (ws, Inr (map g tms'))" .
  then show ?thesis
    unfolding ws_def g_def tms'_def mn_def mx_def d_def .
qed

section \<open>The call: clipping and order of the output\<close>

lemma interpolate_list_states:
  assumes "get_states h sms = Some ss"
  shows "\<exists>H2 H3.
     (\<forall>tms. interpolate_list posix_timestamp h sms tms =
        (case interpolate_states posix_timestamp ss tms of
           (ws, Inl e) \<Rightarrow> (H2, ws, Inl e)
         | (ws, Inr out) \<Rightarrow> (H3 out, ws, Inr (length h))))
     \<and> (\<forall>out. get_states (H3 out) (length h) = Some out)"
proof -
  obtain sref mref where s: "deref h sms = Some (SequenceObj sref mref)"
    using get_states_SomeD [OF assms] by blast
  define h2 where "h2 = (case mref of None \<Rightarrow> h @ [SequenceObj sref None]
                | Some m \<Rightarrow> h @ [SequenceObj sref (Some (Suc (length h))), ListOfMetadata []])"
  define mref' where "mref' = (case mref of None \<Rightarrow> None | Some m \<Rightarrow> Some (Suc (length h)))"
  define H3 where "H3 = (\<lambda>out. h @ [SequenceObj (length h2) mref'] @ drop (Suc (length h)) h2
                             @ [ListOfStates out])"
  have 1: "interpolate_list posix_timestamp h sms tms =
        (case interpolate_states posix_timestamp ss tms of
           (ws, Inl e) \<Rightarrow> (h2, ws, Inl e)
         | (ws, Inr out) \<Rightarrow> (H3 out, ws, Inr (length h)))" for tms
    unfolding h2_def mref'_def H3_def
    using interpolate_list_unfold [OF s, of posix_timestamp tms]
    by (simp only: assms Let_def option.case)
  have 2: "get_states (H3 out) (length h) = Some out" for out
    by (cases mref) (simp_all add: H3_def h2_def get_states_def deref_def nth_append)
  show ?thesis using 1 2 by blast
qed

lemma interpolate_call_states:
  assumes "get_states h sms = Some ss"
  shows "\<exists>H2 H3.
     (\<forall>tms. interpolate_state_mutable_sequence posix_timestamp h sms (TimesList tms) =
        (case interpolate_states posix_timestamp ss tms of
           (ws, Inl e) \<Rightarrow> (H2, ws, Inl e)
         | (ws, Inr out) \<Rightarrow> (H3 out, ws, Inr (Sequence (length h)))))
     \<and> (\<forall>t. interpolate_state_mutable_sequence posix_timestamp h sms (Single t) =
        (case interpolate_states posix_timestamp ss [t] of
           (ws, Inl e) \<Rightarrow> (H2, ws, Inl e)
         | (ws, Inr out) \<Rightarrow>
             (H3 out, ws,
              case out of [] \<Rightarrow> Inl (IndexError ListIndexOutOfRange)
              | st # sts \<Rightarrow> Inr (State (last out)))))
     \<and> (\<forall>out. get_states (H3 out) (length h) = Some out)"
proof -
  obtain H2 H3 where
    1: "\<And>tms. interpolate_list posix_timestamp h sms tms =
        (case interpolate_states posix_timestamp ss tms of
           (ws, Inl e) \<Rightarrow> (H2, ws, Inl e)
         | (ws, Inr out) \<Rightarrow> (H3 out, ws, Inr (length h)))"
    and 2: "\<And>out. get_states (H3 out) (length h) = Some out"
    using interpolate_list_states [OF assms] by blast
  have a: "interpolate_state_mutable_sequence posix_timestamp h sms (TimesList tms) =
        (case interpolate_states posix_timestamp ss tms of
           (ws, Inl e) \<Rightarrow> (H2, ws, Inl e)
         | (ws, Inr out) \<Rightarrow> (H3 out, ws, Inr (Sequence (length h))))" for tms
    by (cases "interpolate_states posix_timestamp ss tms") (auto simp: 1 split: sum.splits)
  have b: "interpolate_state_mutable_sequence posix_timestamp h sms (Single t) =
        (case interpolate_states posix_timestamp ss [t] of
           (ws, Inl e) \<Rightarrow> (H2, ws, Inl e)
         | (ws, Inr out) \<Rightarrow>
             (H3 out, ws,
              case out of [] \<Rightarrow> Inl (IndexError ListIndexOutOfRange)
              | st # sts \<Rightarrow> Inr (State (last out))))" for t
    by (cases "interpolate_states posix_timestamp ss [t]") (auto simp: 1 2 split: sum.splits list.splits)
  show ?thesis using a b 2 by blast
qed

lemma interpolate_states_all_outside:
  assumes "ss \<noteq> []" and "tms \<noteq> []"
    and "filter (\<lambda>t. timestamp (hd ss) \<le> t \<and> t \<le> timestamp (last ss)) tms = []"
  shows "interpolate_states posix_timestamp ss tms =
           ([], Inl (IndexError (AllTimesOutside (timestamp (hd ss)) (timestamp (last ss)))))"
proof -
  have "hd tms \<in> set tms" using assms(2) by simp
  then have "\<not> (\<forall>t\<in>set tms. timestamp (hd ss) \<le> t \<and> t \<le> timestamp (last ss))"
    using assms(3) by (auto simp: filter_empty_conv)
  then have "filter_times (timestamp (hd ss)) (timestamp (last ss)) tms =
           ([], Inl (IndexError (AllTimesOutside (timestamp (hd ss)) (timestamp (last ss)))))"
    by (simp only: filter_times_cases [OF assms(2)] assms(3) if_False if_True refl)
  then show ?thesis
    using assms(1) by (simp add: interpolate_states_def Let_def)
qed

lemma interpolate_states_clipped:
  assumes "ss \<noteq> []"
    and "filter (\<lambda>t. timestamp (hd ss) \<le> t \<and> t \<le> timestamp (last ss)) tms \<noteq> []"
    and "\<not> (\<forall>t\<in>set tms. timestamp (hd ss) \<le> t \<and> t \<le> timestamp (last ss))"
  shows "interpolate_states posix_timestamp ss tms =
           ([OutsideTimeRange (timestamp (hd ss)) (timestamp (last ss))
               {t \<in> set tms. \<not> (timestamp (hd ss) \<le> t \<and> t \<le> timestamp (last ss))}],
            snd (interpolate_states posix_timestamp ss
                   (filter (\<lambda>t. timestamp (hd ss) \<le> t \<and> t \<le> timestamp (last ss)) tms)))"
    and "fst (interpolate_states posix_timestamp ss
                (filter (\<lambda>t. timestamp (hd ss) \<le> t \<and> t \<le> timestamp (last ss)) tms)) = []"
proof -
  define mn where "mn = timestamp (hd ss)"
  define mx where "mx = timestamp (last ss)"
  define tms' where "tms' = filter (\<lambda>t. mn \<le> t \<and> t \<le> mx) tms"
  have tne: "tms \<noteq> []" using assms(2) by auto
  have t'ne: "tms' \<noteq> []" using assms(2) by (simp add: tms'_def mn_def mx_def)
  have set_eq: "set tms - set tms' = {t \<in> set tms. \<not> (mn \<le> t \<and> t \<le> mx)}"
    by (auto simp: tms'_def)
  have 1: "filter_times mn mx tms = ([OutsideTimeRange mn mx {t \<in> set tms. \<not> (mn \<le> t \<and> t \<le> mx)}], Inr tms')"
    using assms(3) t'ne set_eq
    by (simp add: filter_times_cases [OF tne] tms'_def [symmetric] mn_def [symmetric]
        mx_def [symmetric])
  have "\<forall>t\<in>set tms'. mn \<le> t \<and> t \<le> mx" by (simp add: tms'_def)
  then have 2: "filter_times mn mx tms' = ([], Inr tms')"
    by (simp add: filter_times_cases [OF t'ne])
  have a: "interpolate_states posix_timestamp ss tms =
           ([OutsideTimeRange mn mx {t \<in> set tms. \<not> (mn \<le> t \<and> t \<le> mx)}],
            snd (interpolate_states posix_timestamp ss tms'))"
    using assms(1) 1 2
    by (simp add: interpolate_states_def Let_def mn_def [symmetric] mx_def [symmetric])
  have b: "fst (interpolate_states posix_timestamp ss tms') = []"
    using assms(1) 2
    by (simp add: interpolate_states_def Let_def mn_def [symmetric] mx_def [symmetric])
  show "interpolate_states posix_timestamp ss tms =
           ([OutsideTimeRange (timestamp (hd ss)) (timestamp (last ss))
               {t \<in> set tms. \<not> (timestamp (hd ss) \<le> t \<and> t \<le> timestamp (last ss))}],
            snd (interpolate_states posix_timestamp ss
                   (filter (\<lambda>t. timestamp (hd ss) \<le> t \<and> t \<le> timestamp (last ss)) tms)))"
    using a unfolding tms'_def mn_def mx_def .
  show "fst (interpolate_states posix_timestamp ss
                (filter (\<lambda>t. timestamp (hd ss) \<le> t \<and> t \<le> timestamp (last ss)) tms)) = []"
    using b unfolding tms'_def mn_def mx_def .
qed

lemma timestamp_of_result:
  "timestamp (case map_of (time_state_dict ss) t of
                Some s \<Rightarrow> s | None \<Rightarrow> from_state st t v) = t"
proof (cases "map_of (time_state_dict ss) t")
  case None
  then show ?thesis by (simp add: from_state_def)
next
  case (Some s)
  then have "(t, s) \<in> set (time_state_dict ss)" by (rule map_of_SomeD)
  then show ?thesis using Some time_state_dict_entry by fastforce
qed

text \<open>
  C3, as amended. For a non-empty sequence and a non-empty list of requested times,
  with the bounds taken from the first and the last state: when every requested time is
  outside the bounds the call raises \<^verbatim>\<open>IndexError\<close> without emitting a warning, and so
  does the single form for a time outside the bounds; when some but not all are
  outside, the call emits one warning that names exactly the requested times outside
  the bounds and ends as the call on the times within the bounds does, which emits no
  warning: for state vectors of one length it returns a new sequence whose states
  have, in order, the requested times within the bounds as their timestamps.
\<close>

theorem out_of_range_times:
  assumes "get_states h sms = Some ss" and "ss \<noteq> []" and "tms \<noteq> []"
  shows "((\<forall>t\<in>set tms. \<not> (timestamp (hd ss) \<le> t \<and> t \<le> timestamp (last ss))) \<longrightarrow>
            (\<exists>h'. interpolate_state_mutable_sequence posix_timestamp h sms (TimesList tms) =
                    (h', [], Inl (IndexError (AllTimesOutside (timestamp (hd ss))
                                                (timestamp (last ss)))))))
       \<and> ((\<exists>t\<in>set tms. timestamp (hd ss) \<le> t \<and> t \<le> timestamp (last ss))
            \<and> (\<exists>t\<in>set tms. \<not> (timestamp (hd ss) \<le> t \<and> t \<le> timestamp (last ss))) \<longrightarrow>
            (\<exists>h' r. interpolate_state_mutable_sequence posix_timestamp h sms (TimesList tms) =
                      (h', [OutsideTimeRange (timestamp (hd ss)) (timestamp (last ss))
                              {t \<in> set tms. \<not> (timestamp (hd ss) \<le> t
                                                   \<and> t \<le> timestamp (last ss))}], r)
                  \<and> interpolate_state_mutable_sequence posix_timestamp h sms
                      (TimesList (filter (\<lambda>t. timestamp (hd ss) \<le> t
                                                \<and> t \<le> timestamp (last ss)) tms)) =
                      (h', [], r)
                  \<and> ((\<forall>s\<in>set ss. length (state_vector s) = D) \<longrightarrow>
                       (\<exists>a out. r = Inr (Sequence a) \<and> length h \<le> a
                           \<and> get_states h' a = Some out
                           \<and> map timestamp out =
                               filter (\<lambda>t. timestamp (hd ss) \<le> t
                                            \<and> t \<le> timestamp (last ss)) tms))))
       \<and> (\<forall>t. \<not> (timestamp (hd ss) \<le> t \<and> t \<le> timestamp (last ss)) \<longrightarrow>
            (\<exists>h'. interpolate_state_mutable_sequence posix_timestamp h sms (Single t) =
                    (h', [], Inl (IndexError (AllTimesOutside (timestamp (hd ss))
                                                (timestamp (last ss)))))))"
proof -
  obtain H2 H3 where
    call: "\<And>tms. interpolate_state_mutable_sequence posix_timestamp h sms (TimesList tms) =
        (case interpolate_states posix_timestamp ss tms of
           (ws, Inl e) \<Rightarrow> (H2, ws, Inl e)
         | (ws, Inr out) \<Rightarrow> (H3 out, ws, Inr (Sequence (length h))))"
    and single: "\<And>t. interpolate_state_mutable_sequence posix_timestamp h sms (Single t) =
        (case interpolate_states posix_timestamp ss [t] of
           (ws, Inl e) \<Rightarrow> (H2, ws, Inl e)
         | (ws, Inr out) \<Rightarrow>
             (H3 out, ws,
              case out of [] \<Rightarrow> Inl (IndexError ListIndexOutOfRange)
              | st # sts \<Rightarrow> Inr (State (last out))))"
    and gs': "\<And>out. get_states (H3 out) (length h) = Some out"
    using interpolate_call_states [OF assms(1), of posix_timestamp] by blast
  let ?P = "\<lambda>t. timestamp (hd ss) \<le> t \<and> t \<le> timestamp (last ss)"
  have 1: "\<exists>h'. interpolate_state_mutable_sequence posix_timestamp h sms (TimesList tms) =
                    (h', [], Inl (IndexError (AllTimesOutside (timestamp (hd ss))
                                                (timestamp (last ss)))))"
    if "\<forall>t\<in>set tms. \<not> ?P t"
  proof -
    have "filter ?P tms = []" using that by (simp add: filter_empty_conv)
    then have "interpolate_states posix_timestamp ss tms =
           ([], Inl (IndexError (AllTimesOutside (timestamp (hd ss)) (timestamp (last ss)))))"
      by (intro interpolate_states_all_outside assms(2,3))
    then show ?thesis
      by (simp del: interpolate_state_mutable_sequence.simps add: call)
  qed
  have 2: "\<exists>h' r. interpolate_state_mutable_sequence posix_timestamp h sms (TimesList tms) =
                      (h', [OutsideTimeRange (timestamp (hd ss)) (timestamp (last ss))
                              {t \<in> set tms. \<not> ?P t}], r)
                  \<and> interpolate_state_mutable_sequence posix_timestamp h sms
                        (TimesList (filter ?P tms)) = (h', [], r)
                  \<and> ((\<forall>s\<in>set ss. length (state_vector s) = D) \<longrightarrow>
                       (\<exists>a out. r = Inr (Sequence a) \<and> length h \<le> a
                           \<and> get_states h' a = Some out
                           \<and> map timestamp out = filter ?P tms))"
    if mixed: "(\<exists>t\<in>set tms. ?P t) \<and> (\<exists>t\<in>set tms. \<not> ?P t)"
  proof -
    have a: "filter ?P tms \<noteq> []" using mixed by (simp add: filter_empty_conv)
    have b: "\<not> (\<forall>t\<in>set tms. ?P t)" using mixed by blast
    obtain ws' x where c: "interpolate_states posix_timestamp ss (filter ?P tms) = (ws', x)"
      by (cases "interpolate_states posix_timestamp ss (filter ?P tms)") auto
    have "fst (interpolate_states posix_timestamp ss (filter ?P tms)) = []"
      by (rule interpolate_states_clipped(2) [OF assms(2) a b])
    then have ws': "ws' = []" using c by simp
    have "interpolate_states posix_timestamp ss tms =
              ([OutsideTimeRange (timestamp (hd ss)) (timestamp (last ss))
                  {t \<in> set tms. \<not> ?P t}],
               snd (interpolate_states posix_timestamp ss (filter ?P tms)))"
      by (rule interpolate_states_clipped(1) [OF assms(2) a b])
    then have d: "interpolate_states posix_timestamp ss tms =
              ([OutsideTimeRange (timestamp (hd ss)) (timestamp (last ss))
                  {t \<in> set tms. \<not> ?P t}], x)"
      using c by simp
    have kept: "\<exists>out. x = Inr out \<and> map timestamp out = filter ?P tms"
      if dims: "\<forall>s\<in>set ss. length (state_vector s) = D"
    proof -
      have "\<exists>ws out. interpolate_states posix_timestamp ss tms = (ws, Inr out)
                  \<and> map timestamp out = filter ?P tms"
        by (simp add: interpolate_states_result [OF assms(2) a dims] o_def timestamp_of_result)
      then show ?thesis using d by auto
    qed
    show ?thesis
    proof (cases x)
      case (Inl e)
      have "\<not> (\<forall>s\<in>set ss. length (state_vector s) = D)"
        using kept Inl by auto
      then show ?thesis
        by (simp del: interpolate_state_mutable_sequence.simps add: call c d ws' Inl)
    next
      case (Inr out)
      have "map timestamp out = filter ?P tms"
        if "\<forall>s\<in>set ss. length (state_vector s) = D"
        using kept [OF that] Inr by auto
      then show ?thesis
        by (simp del: interpolate_state_mutable_sequence.simps add: call c d ws' Inr gs')
    qed
  qed
  have 3: "\<exists>h'. interpolate_state_mutable_sequence posix_timestamp h sms (Single t) =
                    (h', [], Inl (IndexError (AllTimesOutside (timestamp (hd ss))
                                                (timestamp (last ss)))))"
    if "\<not> ?P t" for t
  proof -
    have "filter ?P [t] = []" using that by simp
    then have "interpolate_states posix_timestamp ss [t] =
           ([], Inl (IndexError (AllTimesOutside (timestamp (hd ss)) (timestamp (last ss)))))"
      by (intro interpolate_states_all_outside assms(2)) simp_all
    then show ?thesis
      by (simp del: interpolate_state_mutable_sequence.simps add: single)
  qed
  show ?thesis using 1 2 3 by blast
qed

theorem out_of_range_times_witness:
  "(\<exists>h' a out. interpolate_state_mutable_sequence exact_seconds
       [SequenceObj 1 None,
        ListOfStates [\<lparr>timestamp = 0, state_vector = [0, 0], other = ()\<rparr>,
                      \<lparr>timestamp = 10, state_vector = [10, 20], other = ()\<rparr>]
          :: (unit, unit) pyobj] 0 (TimesList [5, 15])
       = (h', [OutsideTimeRange 0 10 {15}], Inr (Sequence a))
     \<and> get_states h' a = Some out \<and> map timestamp out = [5])
   \<and> snd (snd (interpolate_state_mutable_sequence exact_seconds
       [SequenceObj 1 None,
        ListOfStates [\<lparr>timestamp = 0, state_vector = [0, 0], other = ()\<rparr>,
                      \<lparr>timestamp = 10, state_vector = [10, 20], other = ()\<rparr>]
          :: (unit, unit) pyobj] 0 (TimesList [15])))
     = Inl (IndexError (AllTimesOutside 0 10))"
proof -
  let ?ss = "[\<lparr>timestamp = 0, state_vector = [0, 0], other = ()\<rparr>,
              \<lparr>timestamp = 10, state_vector = [10, 20], other = ()\<rparr>]"
  let ?h = "[SequenceObj 1 None, ListOfStates ?ss] :: (unit, unit) heap"
  have g: "get_states ?h 0 = Some ?ss"
    by (simp add: get_states_def deref_def)
  have n: "?ss \<noteq> []" by simp
  have n1: "[5, 15 :: int] \<noteq> []" and n2: "[15 :: int] \<noteq> []" by simp_all
  have s: "{t \<in> set [5, 15 :: int]. \<not> (timestamp (hd ?ss) \<le> t \<and> t \<le> timestamp (last ?ss))} = {15}"
    by auto
  have f: "filter (\<lambda>t. timestamp (hd ?ss) \<le> t \<and> t \<le> timestamp (last ?ss)) [5, 15] = [5]"
    by simp
  have mixed: "(\<exists>t\<in>set [5, 15]. timestamp (hd ?ss) \<le> t \<and> t \<le> timestamp (last ?ss))
             \<and> (\<exists>t\<in>set [5, 15]. \<not> (timestamp (hd ?ss) \<le> t \<and> t \<le> timestamp (last ?ss)))"
    by simp
  have outside: "\<forall>t\<in>set [15]. \<not> (timestamp (hd ?ss) \<le> t \<and> t \<le> timestamp (last ?ss))"
    by simp
  have dims: "\<forall>s\<in>set ?ss. length (state_vector s) = 2" by simp
  let ?P = "\<lambda>t. timestamp (hd ?ss) \<le> t \<and> t \<le> timestamp (last ?ss)"
  note T = out_of_range_times [OF g n n1, where posix_timestamp = exact_seconds and D = 2]
  have "\<exists>h' r. interpolate_state_mutable_sequence exact_seconds ?h 0 (TimesList [5, 15]) =
                 (h', [OutsideTimeRange (timestamp (hd ?ss)) (timestamp (last ?ss))
                         {t \<in> set [5, 15]. \<not> ?P t}], r)
             \<and> interpolate_state_mutable_sequence exact_seconds ?h 0
                   (TimesList (filter ?P [5, 15])) = (h', [], r)
             \<and> ((\<forall>s\<in>set ?ss. length (state_vector s) = 2) \<longrightarrow>
                  (\<exists>a out. r = Inr (Sequence a) \<and> length ?h \<le> a
                      \<and> get_states h' a = Some out
                      \<and> map timestamp out = filter ?P [5, 15]))"
    by (rule T [THEN conjunct2, THEN conjunct1, THEN mp, OF mixed])
  then obtain h' r where
    c: "interpolate_state_mutable_sequence exact_seconds ?h 0 (TimesList [5, 15]) =
          (h', [OutsideTimeRange (timestamp (hd ?ss)) (timestamp (last ?ss))
                  {t \<in> set [5, 15]. \<not> ?P t}], r)"
    and r: "(\<forall>s\<in>set ?ss. length (state_vector s) = 2) \<longrightarrow>
              (\<exists>a out. r = Inr (Sequence a) \<and> length ?h \<le> a
                  \<and> get_states h' a = Some out
                  \<and> map timestamp out = filter ?P [5, 15])"
    by blast
  obtain a out where r': "r = Inr (Sequence a)" "get_states h' a = Some out"
      "map timestamp out = filter ?P [5, 15]"
    using r [THEN mp, OF dims] by blast
  have A: "\<exists>h' a out. interpolate_state_mutable_sequence exact_seconds ?h 0 (TimesList [5, 15])
       = (h', [OutsideTimeRange 0 10 {15}], Inr (Sequence a))
     \<and> get_states h' a = Some out \<and> map timestamp out = [5]"
  proof (intro exI conjI)
    show "interpolate_state_mutable_sequence exact_seconds ?h 0 (TimesList [5, 15])
       = (h', [OutsideTimeRange 0 10 {15}], Inr (Sequence a))"
      using c unfolding s r' by simp
    show "get_states h' a = Some out" by (rule r'(2))
    show "map timestamp out = [5]" using r'(3) unfolding f .
  qed
  have "\<forall>t\<in>set [15]. \<not> ?P t \<Longrightarrow>
        \<exists>h'. interpolate_state_mutable_sequence exact_seconds ?h 0 (TimesList [15]) =
                 (h', [], Inl (IndexError (AllTimesOutside (timestamp (hd ?ss))
                                             (timestamp (last ?ss)))))"
    by (rule out_of_range_times [OF g n n2, where posix_timestamp = exact_seconds and D = 2,
              THEN conjunct1, THEN mp])
  from this [OF outside]
  have B: "snd (snd (interpolate_state_mutable_sequence exact_seconds ?h 0 (TimesList [15])))
     = Inl (IndexError (AllTimesOutside 0 10))"
    by auto
  show ?thesis using A B by blast
qed

text \<open>
  C3 as stated fails for the empty list of requested times: every requested time is
  then outside the bounds, and the call raises \<^verbatim>\<open>ValueError\<close>, from \<^verbatim>\<open>max\<close>, not the
  \<^verbatim>\<open>IndexError\<close> that reports times outside the range.
\<close>

theorem no_requested_times_counterexample:
  "interpolate_state_mutable_sequence exact_seconds
     [SequenceObj 1 None,
      ListOfStates [\<lparr>timestamp = 0, state_vector = [0, 0], other = ()\<rparr>,
                    \<lparr>timestamp = 10, state_vector = [10, 20], other = ()\<rparr>]
        :: (unit, unit) pyobj] 0 (TimesList [])
   = ([SequenceObj 1 None,
       ListOfStates [\<lparr>timestamp = 0, state_vector = [0, 0], other = ()\<rparr>,
                     \<lparr>timestamp = 10, state_vector = [10, 20], other = ()\<rparr>],
       SequenceObj 1 None],
      [], Inl ValueError)"
  by code_simp

text \<open>
  C4, as amended. The timestamps of the returned states are the requested times within
  the bounds, in the order requested and as often as requested; they are distinct when
  the requested times are.
\<close>

theorem output_follows_query_order:
  assumes "get_states h sms = Some ss" and "ss \<noteq> []"
    and "\<exists>t\<in>set tms. timestamp (hd ss) \<le> t \<and> t \<le> timestamp (last ss)"
    and "\<forall>s\<in>set ss. length (state_vector s) = D"
  shows "\<exists>h' ws a out.
           interpolate_state_mutable_sequence posix_timestamp h sms (TimesList tms) = (h', ws, Inr (Sequence a))
         \<and> get_states h' a = Some out
         \<and> map timestamp out
             = filter (\<lambda>t. timestamp (hd ss) \<le> t \<and> t \<le> timestamp (last ss)) tms
         \<and> (distinct tms \<longrightarrow> distinct (map timestamp out))"
proof -
  obtain H2 H3 where
    call: "\<And>tms. interpolate_state_mutable_sequence posix_timestamp h sms (TimesList tms) =
        (case interpolate_states posix_timestamp ss tms of
           (ws, Inl e) \<Rightarrow> (H2, ws, Inl e)
         | (ws, Inr out) \<Rightarrow> (H3 out, ws, Inr (Sequence (length h))))"
    and gs: "\<And>out. get_states (H3 out) (length h) = Some out"
    using interpolate_call_states [OF assms(1)] by blast
  let ?P = "\<lambda>t. timestamp (hd ss) \<le> t \<and> t \<le> timestamp (last ss)"
  have ne: "filter ?P tms \<noteq> []"
    using assms(3) by (simp add: filter_empty_conv)
  obtain ws out where r: "interpolate_states posix_timestamp ss tms = (ws, Inr out)"
    and ts: "map timestamp out = filter ?P tms"
    using interpolate_states_result [OF assms(2) ne assms(4)]
    by (simp add: o_def timestamp_of_result)
  have "interpolate_state_mutable_sequence posix_timestamp h sms (TimesList tms)
          = (H3 out, ws, Inr (Sequence (length h)))"
    by (simp del: interpolate_state_mutable_sequence.simps add: call r)
  moreover have "distinct (map timestamp out)" if "distinct tms"
    using that ts by simp
  ultimately show ?thesis using gs ts by blast
qed

theorem output_follows_query_order_witness:
  "(\<exists>h' ws a out.
      interpolate_state_mutable_sequence exact_seconds
        [SequenceObj 1 None,
         ListOfStates [\<lparr>timestamp = 0, state_vector = [0, 0], other = ()\<rparr>,
                       \<lparr>timestamp = 10, state_vector = [10, 20], other = ()\<rparr>]
           :: (unit, unit) pyobj] 0 (TimesList [10, 15, 5, 0])
        = (h', ws, Inr (Sequence a))
    \<and> get_states h' a = Some out
    \<and> map timestamp out = [10, 5, 0])"
proof -
  let ?ss = "[\<lparr>timestamp = 0, state_vector = [0, 0], other = ()\<rparr>,
              \<lparr>timestamp = 10, state_vector = [10, 20], other = ()\<rparr>]"
  let ?h = "[SequenceObj 1 None, ListOfStates ?ss] :: (unit, unit) heap"
  have g: "get_states ?h 0 = Some ?ss"
    by (simp add: get_states_def deref_def)
  have d: "\<forall>s\<in>set ?ss. length (state_vector s) = 2" by simp
  have n: "?ss \<noteq> []" by simp
  have e: "\<exists>t\<in>set [10, 15, 5, 0]. timestamp (hd ?ss) \<le> t \<and> t \<le> timestamp (last ?ss)"
    by simp
  have f: "filter (\<lambda>t. timestamp (hd ?ss) \<le> t \<and> t \<le> timestamp (last ?ss)) [10, 15, 5, 0]
             = [10, 5, 0]"
    by simp
  show ?thesis
    using output_follows_query_order [OF g n e d, where posix_timestamp = exact_seconds]
    unfolding f
    by (elim exE conjE) (intro exI conjI, assumption+)
qed

text \<open>
  C4 as stated fails: a time requested twice is returned twice.
\<close>

theorem output_not_deduplicated_counterexample:
  "interpolate_state_mutable_sequence exact_seconds
     [SequenceObj 1 None,
      ListOfStates [\<lparr>timestamp = 0, state_vector = [0, 0], other = ()\<rparr>,
                    \<lparr>timestamp = 10, state_vector = [10, 20], other = ()\<rparr>]
        :: (unit, unit) pyobj] 0 (TimesList [5, 5])
   = ([SequenceObj 1 None,
       ListOfStates [\<lparr>timestamp = 0, state_vector = [0, 0], other = ()\<rparr>,
                     \<lparr>timestamp = 10, state_vector = [10, 20], other = ()\<rparr>],
       SequenceObj 3 None,
       ListOfStates [\<lparr>timestamp = 5, state_vector = [5, 10], other = ()\<rparr>,
                     \<lparr>timestamp = 5, state_vector = [5, 10], other = ()\<rparr>]],
      [], Inr (Sequence 2))"
  by code_simp

section \<open>The state returned for one requested time\<close>

lemma find_pair_sorted:
  assumes "ss \<noteq> []" and "sorted (map timestamp ss)"
    and "timestamp (hd ss) < t" and "t \<le> timestamp (last ss)"
  shows "\<exists>p. find (\<lambda>p. t \<le> timestamp (snd p)) (pairwise_iter ss) = Some p
           \<and> fst p = last (filter (\<lambda>s. timestamp s < t) ss)"
  using assms
proof (induction ss rule: pairwise_iter.induct)
  case (1 a b xs)
  show ?case
  proof (cases "t \<le> timestamp b")
    case True
    have "\<forall>s\<in>set (b # xs). \<not> timestamp s < t"
      using "1.prems"(2) True by auto
    then have "filter (\<lambda>s. timestamp s < t) (b # xs) = []"
      by (simp only: filter_empty_conv)
    then have "filter (\<lambda>s. timestamp s < t) (a # b # xs) = [a]"
      using "1.prems"(3) by simp
    then show ?thesis using True by simp
  next
    case False
    then have xs: "xs \<noteq> []" using "1.prems"(4) by auto
    have "\<exists>p. find (\<lambda>p. t \<le> timestamp (snd p)) (pairwise_iter (b # xs)) = Some p
           \<and> fst p = last (filter (\<lambda>s. timestamp s < t) (b # xs))"
      using "1.prems" False xs by (intro "1.IH") auto
    moreover have "last (filter (\<lambda>s. timestamp s < t) (a # b # xs))
                 = last (filter (\<lambda>s. timestamp s < t) (b # xs))"
      using "1.prems"(3) False by simp
    ultimately show ?thesis using False by simp
  qed
next
  case (2 a)
  then show ?case by simp
next
  case 3
  then show ?case by simp
qed

lemma last_filter_last:
  "xs \<noteq> [] \<Longrightarrow> Q (last xs) \<Longrightarrow> last (filter Q xs) = last xs"
  by (induction xs rule: rev_induct) auto

lemma sorted_le_last:
  "sorted (map f xs) \<Longrightarrow> x \<in> set xs \<Longrightarrow> f x \<le> f (last xs)"
  for f :: "'b \<Rightarrow> int"
proof (induction xs rule: rev_induct)
  case Nil
  then show ?case by simp
next
  case (snoc y ys)
  then show ?case by (auto simp: sorted_append)
qed

lemma sorted_hd_le:
  "sorted (map f xs) \<Longrightarrow> x \<in> set xs \<Longrightarrow> f (hd xs) \<le> f x"
  for f :: "'b \<Rightarrow> int"
  by (cases xs) auto

lemma map_of_time_state_dict_Some:
  "filter (\<lambda>s. timestamp s = t) ss \<noteq> [] \<Longrightarrow>
     map_of (time_state_dict ss) t = Some (last (filter (\<lambda>s. timestamp s = t) ss))"
  by (simp add: map_of_time_state_dict split: list.splits)

lemma predecessor_facts:
  assumes "ss \<noteq> []" and "timestamp (hd ss) < t"
  defines "pred \<equiv> last (filter (\<lambda>s. timestamp s < t) ss)"
  shows "timestamp pred < t"
    and "pred \<in> set ss"
    and "map_of (time_state_dict ss) (timestamp pred) = Some pred"
    and "sorted (map timestamp ss) \<Longrightarrow> s \<in> set ss \<Longrightarrow> timestamp s < t
           \<Longrightarrow> timestamp s \<le> timestamp pred"
proof -
  let ?L = "filter (\<lambda>s. timestamp s < t) ss"
  have "hd ss \<in> set ?L" using assms(1,2) by simp
  then have ne: "?L \<noteq> []" by (metis empty_iff empty_set)
  then have mem: "pred \<in> set ?L" unfolding pred_def by (rule last_in_set)
  then show lt: "timestamp pred < t" and "pred \<in> set ss" by simp_all
  let ?Q = "\<lambda>s. timestamp s = timestamp pred"
  have "filter ?Q ?L = filter (\<lambda>s. timestamp s < t \<and> ?Q s) ss"
    by (simp only: filter_filter)
  also have "\<dots> = filter ?Q ss"
    using lt by (intro filter_cong) auto
  finally have eq: "filter ?Q ss = filter ?Q ?L" by simp
  have l: "last (filter ?Q ?L) = last ?L"
    using ne by (rule last_filter_last) (simp only: pred_def)
  have "pred \<in> set (filter ?Q ?L)" using mem by simp
  then have ne2: "filter ?Q ?L \<noteq> []" by (metis empty_iff empty_set)
  have "filter ?Q ss \<noteq> []"
    using ne2 unfolding eq .
  moreover have "last (filter ?Q ss) = pred"
    using l eq pred_def by metis
  ultimately show "map_of (time_state_dict ss) (timestamp pred) = Some pred"
    using map_of_time_state_dict_Some [of "timestamp pred" ss] by simp
  show "timestamp s \<le> timestamp pred"
    if "sorted (map timestamp ss)" "s \<in> set ss" "timestamp s < t"
  proof -
    have "sorted (map timestamp ?L)" using that(1) by (rule sorted_filter)
    moreover have "s \<in> set ?L" using that(2,3) by simp
    ultimately show ?thesis unfolding pred_def by (rule sorted_le_last)
  qed
qed

lemma call_result_at:
  assumes gs: "get_states h sms = Some ss" and ne: "ss \<noteq> []"
    and mem: "t \<in> set tms"
    and rng: "timestamp (hd ss) \<le> t \<and> t \<le> timestamp (last ss)"
    and dims: "\<forall>s\<in>set ss. length (state_vector s) = D"
    and G: "G = (case map_of (time_state_dict ss) t of
                   Some s \<Rightarrow> s
                 | None \<Rightarrow>
                     from_state
                       (fst (the (find (\<lambda>p. t \<le> timestamp (snd p)) (pairwise_iter ss)))) t
                       (map (\<lambda>e. np_interp1 (posix_timestamp t)
                               (map (\<lambda>kv. posix_timestamp (fst kv)) (time_state_dict ss))
                               (map (\<lambda>kv. state_vector (snd kv) ! e) (time_state_dict ss)))
                          [0 ..< D]))"
  shows "(\<exists>h' ws a out.
            interpolate_state_mutable_sequence posix_timestamp h sms (TimesList tms) = (h', ws, Inr (Sequence a))
          \<and> get_states h' a = Some out
          \<and> (\<exists>st\<in>set out. timestamp st = t)
          \<and> (\<forall>st\<in>set out. timestamp st = t \<longrightarrow> st = G))
       \<and> (\<exists>h' ws. interpolate_state_mutable_sequence posix_timestamp h sms (Single t) = (h', ws, Inr (State G)))"
proof -
  obtain H2 H3 where
    call: "\<And>tms. interpolate_state_mutable_sequence posix_timestamp h sms (TimesList tms) =
        (case interpolate_states posix_timestamp ss tms of
           (ws, Inl e) \<Rightarrow> (H2, ws, Inl e)
         | (ws, Inr out) \<Rightarrow> (H3 out, ws, Inr (Sequence (length h))))"
    and single: "\<And>t. interpolate_state_mutable_sequence posix_timestamp h sms (Single t) =
        (case interpolate_states posix_timestamp ss [t] of
           (ws, Inl e) \<Rightarrow> (H2, ws, Inl e)
         | (ws, Inr out) \<Rightarrow>
             (H3 out, ws,
              case out of [] \<Rightarrow> Inl (IndexError ListIndexOutOfRange)
              | st # sts \<Rightarrow> Inr (State (last out))))"
    and gs': "\<And>out. get_states (H3 out) (length h) = Some out"
    using interpolate_call_states [OF gs] by blast
  let ?P = "\<lambda>t. timestamp (hd ss) \<le> t \<and> t \<le> timestamp (last ss)"
  let ?g = "\<lambda>t. case map_of (time_state_dict ss) t of
                   Some s \<Rightarrow> s
                 | None \<Rightarrow>
                     from_state
                       (fst (the (find (\<lambda>p. t \<le> timestamp (snd p)) (pairwise_iter ss)))) t
                       (map (\<lambda>e. np_interp1 (posix_timestamp t)
                               (map (\<lambda>kv. posix_timestamp (fst kv)) (time_state_dict ss))
                               (map (\<lambda>kv. state_vector (snd kv) ! e) (time_state_dict ss)))
                          [0 ..< D])"
  have Gg: "G = ?g t" by (simp only: G)
  have tg: "timestamp (?g u) = u" for u by (rule timestamp_of_result)
  have in': "t \<in> set (filter ?P tms)" using mem rng by simp
  then have fne: "filter ?P tms \<noteq> []" by (metis empty_iff empty_set)
  obtain ws where r: "interpolate_states posix_timestamp ss tms = (ws, Inr (map ?g (filter ?P tms)))"
    using interpolate_states_result [OF ne fne dims] by simp
  have 1: "interpolate_state_mutable_sequence posix_timestamp h sms (TimesList tms)
             = (H3 (map ?g (filter ?P tms)), ws, Inr (Sequence (length h)))"
    by (simp only: call r prod.case sum.case)
  have 2: "\<exists>st\<in>set (map ?g (filter ?P tms)). timestamp st = t"
    using in' tg by (intro bexI [of _ "?g t"]) (simp_all del: set_filter)
  have 3: "st = G" if m: "st \<in> set (map ?g (filter ?P tms))" and e: "timestamp st = t" for st
  proof -
    obtain u where u: "st = ?g u" using m by auto
    have "timestamp st = u" unfolding u by (rule tg)
    then have "u = t" using e by simp
    then show ?thesis using u Gg by (simp only:)
  qed
  have f1: "filter ?P [t] = [t]" using rng by simp
  then have f1ne: "filter ?P [t] \<noteq> []" by simp
  obtain ws1 where r1: "interpolate_states posix_timestamp ss [t] = (ws1, Inr [?g t])"
    using interpolate_states_result [OF ne f1ne dims] unfolding f1 by simp
  have 4: "interpolate_state_mutable_sequence posix_timestamp h sms (Single t) = (H3 [?g t], ws1, Inr (State G))"
    by (simp only: single r1 prod.case sum.case list.case last.simps if_True Gg refl)
  show ?thesis
    using 1 2 3 4 gs' by blast
qed

text \<open>
  C2, as amended. A requested time that is a timestamp of the sequence and lies within
  the bounds taken from the first and the last state is not among the times to
  interpolate, and the state returned for it is the last state of the sequence with
  that timestamp, in the list form and in the single form of the call.
\<close>

theorem exact_time_passthrough:
  assumes gs: "get_states h sms = Some ss"
    and mem: "t \<in> set tms"
    and rng: "timestamp (hd ss) \<le> t \<and> t \<le> timestamp (last ss)"
    and key: "t \<in> timestamp ` set ss"
    and dims: "\<forall>s\<in>set ss. length (state_vector s) = D"
  shows "(\<exists>h' ws a out.
            interpolate_state_mutable_sequence posix_timestamp h sms (TimesList tms) = (h', ws, Inr (Sequence a))
          \<and> get_states h' a = Some out
          \<and> (\<exists>st\<in>set out. timestamp st = t)
          \<and> (\<forall>st\<in>set out. timestamp st = t \<longrightarrow>
                 st = last (filter (\<lambda>s. timestamp s = t) ss)))
       \<and> (\<exists>h' ws. interpolate_state_mutable_sequence posix_timestamp h sms (Single t) =
                     (h', ws, Inr (State (last (filter (\<lambda>s. timestamp s = t) ss)))))
       \<and> t \<notin> set (times_to_interpolate
                      (filter (\<lambda>t. timestamp (hd ss) \<le> t \<and> t \<le> timestamp (last ss)) tms)
                      (time_state_dict ss))"
proof -
  have ne: "ss \<noteq> []" using key by auto
  have "filter (\<lambda>s. timestamp s = t) ss \<noteq> []"
    using key by (auto simp: filter_empty_conv)
  then have m: "map_of (time_state_dict ss) t = Some (last (filter (\<lambda>s. timestamp s = t) ss))"
    by (rule map_of_time_state_dict_Some)
  have G: "last (filter (\<lambda>s. timestamp s = t) ss) =
             (case map_of (time_state_dict ss) t of
                   Some s \<Rightarrow> s
                 | None \<Rightarrow>
                     from_state
                       (fst (the (find (\<lambda>p. t \<le> timestamp (snd p)) (pairwise_iter ss)))) t
                       (map (\<lambda>e. np_interp1 (posix_timestamp t)
                               (map (\<lambda>kv. posix_timestamp (fst kv)) (time_state_dict ss))
                               (map (\<lambda>kv. state_vector (snd kv) ! e) (time_state_dict ss)))
                          [0 ..< D]))"
    by (simp only: m option.case)
  have "t \<notin> set (times_to_interpolate
                      (filter (\<lambda>t. timestamp (hd ss) \<le> t \<and> t \<le> timestamp (last ss)) tms)
                      (time_state_dict ss))"
    using key by (simp add: set_times_to_interpolate keys_time_state_dict)
  then show ?thesis
    using call_result_at [OF gs ne mem rng dims G] by blast
qed

theorem exact_time_passthrough_witness:
  "\<exists>h' ws. interpolate_state_mutable_sequence exact_seconds
       [SequenceObj 1 None,
        ListOfStates [\<lparr>timestamp = 0, state_vector = [1], other = ()\<rparr>,
                      \<lparr>timestamp = 0, state_vector = [2], other = ()\<rparr>,
                      \<lparr>timestamp = 10, state_vector = [3], other = ()\<rparr>]
          :: (unit, unit) pyobj] 0 (Single 0)
     = (h', ws, Inr (State \<lparr>timestamp = 0, state_vector = [2], other = ()\<rparr>))"
proof -
  let ?ss = "[\<lparr>timestamp = 0, state_vector = [1], other = ()\<rparr>,
              \<lparr>timestamp = 0, state_vector = [2], other = ()\<rparr>,
              \<lparr>timestamp = 10, state_vector = [3], other = ()\<rparr>]"
  let ?h = "[SequenceObj 1 None, ListOfStates ?ss] :: (unit, unit) heap"
  have g: "get_states ?h 0 = Some ?ss"
    by (simp add: get_states_def deref_def)
  have m: "(0::int) \<in> set [0, 5]" by simp
  have r: "timestamp (hd ?ss) \<le> 0 \<and> 0 \<le> timestamp (last ?ss)" by simp
  have k: "0 \<in> timestamp ` set ?ss" by simp
  have d: "\<forall>s\<in>set ?ss. length (state_vector s) = 1" by simp
  have l: "last (filter (\<lambda>s. timestamp s = 0) ?ss)
             = \<lparr>timestamp = 0, state_vector = [2], other = ()\<rparr>"
    by simp
  show ?thesis
    using exact_time_passthrough [OF g m r k d] unfolding l by blast
qed

text \<open>
  C2 as stated fails: in the sequence of the states at 10, 0, 20 the time 0 is a
  timestamp of the sequence but lies outside the bounds 10 and 20, and the call raises.
\<close>

theorem exact_time_out_of_bounds_counterexample:
  "interpolate_state_mutable_sequence exact_seconds
     [SequenceObj 1 None,
      ListOfStates [\<lparr>timestamp = 10, state_vector = [5], other = ()\<rparr>,
                    \<lparr>timestamp = 0, state_vector = [0], other = ()\<rparr>,
                    \<lparr>timestamp = 20, state_vector = [2], other = ()\<rparr>]
        :: (unit, unit) pyobj] 0 (TimesList [0])
   = ([SequenceObj 1 None,
       ListOfStates [\<lparr>timestamp = 10, state_vector = [5], other = ()\<rparr>,
                     \<lparr>timestamp = 0, state_vector = [0], other = ()\<rparr>,
                     \<lparr>timestamp = 20, state_vector = [2], other = ()\<rparr>],
       SequenceObj 1 None],
      [], Inl (IndexError (AllTimesOutside 10 20)))"
  by code_simp

text \<open>
  C5, as amended. For a sequence in non-decreasing timestamp order and a requested time
  \<open>t\<close> within the bounds that is no timestamp of the sequence, the state returned for
  \<open>t\<close> is the copy of \<open>pred\<close> with timestamp \<open>t\<close> and the interpolated vector, where
  \<open>pred\<close> is the last state of the sequence before \<open>t\<close>: it is the timeline's entry
  for its timestamp, and no state before \<open>t\<close> has a later timestamp.
\<close>

theorem synthesized_from_predecessor:
  assumes gs: "get_states h sms = Some ss" and ne: "ss \<noteq> []"
    and srt: "sorted (map timestamp ss)"
    and mem: "t \<in> set tms"
    and rng: "timestamp (hd ss) \<le> t \<and> t \<le> timestamp (last ss)"
    and key: "t \<notin> timestamp ` set ss"
    and dims: "\<forall>s\<in>set ss. length (state_vector s) = D"
    and pred: "pred = last (filter (\<lambda>s. timestamp s < t) ss)"
    and vec: "vec = map (\<lambda>e. np_interp1 (posix_timestamp t)
                               (map (\<lambda>kv. posix_timestamp (fst kv)) (time_state_dict ss))
                               (map (\<lambda>kv. state_vector (snd kv) ! e) (time_state_dict ss)))
                          [0 ..< D]"
  shows "(\<exists>h' ws a out.
            interpolate_state_mutable_sequence posix_timestamp h sms (TimesList tms) = (h', ws, Inr (Sequence a))
          \<and> get_states h' a = Some out
          \<and> (\<exists>st\<in>set out. timestamp st = t)
          \<and> (\<forall>st\<in>set out. timestamp st = t \<longrightarrow>
                 st = from_state pred t vec \<and> other st = other pred \<and> state_vector st = vec))
       \<and> (\<exists>h' ws. interpolate_state_mutable_sequence posix_timestamp h sms (Single t) =
                     (h', ws, Inr (State (from_state pred t vec))))
       \<and> pred \<in> set ss \<and> timestamp pred < t
       \<and> map_of (time_state_dict ss) (timestamp pred) = Some pred
       \<and> (\<forall>s\<in>set ss. timestamp s < t \<longrightarrow> timestamp s \<le> timestamp pred)"
proof -
  have "hd ss \<in> set ss" using ne by simp
  then have "timestamp (hd ss) \<noteq> t" using key by auto
  then have lt: "timestamp (hd ss) < t" using rng by simp
  obtain p where p: "find (\<lambda>p. t \<le> timestamp (snd p)) (pairwise_iter ss) = Some p"
    and fp: "fst p = pred"
    using find_pair_sorted [OF ne srt lt] rng pred by blast
  have m: "map_of (time_state_dict ss) t = None"
    using key by (simp add: map_of_eq_None_iff keys_time_state_dict)
  have G: "from_state pred t vec =
             (case map_of (time_state_dict ss) t of
                   Some s \<Rightarrow> s
                 | None \<Rightarrow>
                     from_state
                       (fst (the (find (\<lambda>p. t \<le> timestamp (snd p)) (pairwise_iter ss)))) t
                       (map (\<lambda>e. np_interp1 (posix_timestamp t)
                               (map (\<lambda>kv. posix_timestamp (fst kv)) (time_state_dict ss))
                               (map (\<lambda>kv. state_vector (snd kv) ! e) (time_state_dict ss)))
                          [0 ..< D]))"
    by (simp only: m option.case p option.sel fp vec)
  have a: "other (from_state pred t vec) = other pred"
    and b: "state_vector (from_state pred t vec) = vec"
    by (simp_all add: from_state_def)
  have facts: "pred \<in> set ss" "timestamp pred < t"
    "map_of (time_state_dict ss) (timestamp pred) = Some pred"
    "\<forall>s\<in>set ss. timestamp s < t \<longrightarrow> timestamp s \<le> timestamp pred"
    using predecessor_facts [OF ne lt] srt unfolding pred by blast+
  show ?thesis
    using call_result_at [OF gs ne mem rng dims G] a b facts by (simp only:) blast
qed

theorem synthesized_from_predecessor_witness:
  "\<exists>h' ws. interpolate_state_mutable_sequence exact_seconds
       [SequenceObj 1 None,
        ListOfStates [\<lparr>timestamp = 0, state_vector = [0, 0], other = (1::nat)\<rparr>,
                      \<lparr>timestamp = 10, state_vector = [10, 20], other = 2\<rparr>]
          :: (nat, unit) pyobj] 0 (Single 5)
     = (h', ws, Inr (State \<lparr>timestamp = 5, state_vector = [5, 10], other = 1\<rparr>))"
proof -
  let ?ss = "[\<lparr>timestamp = 0, state_vector = [0, 0], other = (1::nat)\<rparr>,
              \<lparr>timestamp = 10, state_vector = [10, 20], other = 2\<rparr>]"
  let ?h = "[SequenceObj 1 None, ListOfStates ?ss] :: (nat, unit) heap"
  have g: "get_states ?h 0 = Some ?ss"
    by (simp add: get_states_def deref_def)
  have n: "?ss \<noteq> []" by simp
  have s: "sorted (map timestamp ?ss)" by simp
  have m: "(5::int) \<in> set [5]" by simp
  have r: "timestamp (hd ?ss) \<le> 5 \<and> 5 \<le> timestamp (last ?ss)" by simp
  have k: "5 \<notin> timestamp ` set ?ss" by simp
  have d: "\<forall>s\<in>set ?ss. length (state_vector s) = 2" by simp
  have e: "from_state (last (filter (\<lambda>s. timestamp s < 5) ?ss)) 5
             (map (\<lambda>e. np_interp1 (exact_seconds 5)
                               (map (\<lambda>kv. exact_seconds (fst kv)) (time_state_dict ?ss))
                               (map (\<lambda>kv. state_vector (snd kv) ! e) (time_state_dict ?ss)))
                          [0 ..< 2])
           = \<lparr>timestamp = 5, state_vector = [5, 10], other = 1\<rparr>"
    by code_simp
  have "\<exists>h' ws. interpolate_state_mutable_sequence exact_seconds ?h 0 (Single 5) =
          (h', ws, Inr (State (from_state (last (filter (\<lambda>s. timestamp s < 5) ?ss)) 5
             (map (\<lambda>e. np_interp1 (exact_seconds 5)
                               (map (\<lambda>kv. exact_seconds (fst kv)) (time_state_dict ?ss))
                               (map (\<lambda>kv. state_vector (snd kv) ! e) (time_state_dict ?ss)))
                          [0 ..< 2]))))"
    using synthesized_from_predecessor [OF g n s m r k d refl refl] by blast
  then show ?thesis
    by (simp only: e)
qed

text \<open>
  C5 as stated fails for a sequence that is not in timestamp order: with the states
  at 10, 0, 20 the state synthesized for 15 copies the state at 0, although the
  timeline has an entry at 10.
\<close>

theorem synthesized_template_unsorted_counterexample:
  "snd (snd (interpolate_state_mutable_sequence exact_seconds
       [SequenceObj 1 None,
        ListOfStates [\<lparr>timestamp = 10, state_vector = [5], other = (1::nat)\<rparr>,
                      \<lparr>timestamp = 0, state_vector = [0], other = 2\<rparr>,
                      \<lparr>timestamp = 20, state_vector = [2], other = 3\<rparr>]
          :: (nat, unit) pyobj] 0 (Single 15)))
     = Inr (State \<lparr>timestamp = 15, state_vector = [3 / 2], other = 2\<rparr>)
   \<and> map_of (time_state_dict
        [\<lparr>timestamp = 10, state_vector = [5], other = (1::nat)\<rparr>,
         \<lparr>timestamp = 0, state_vector = [0], other = 2\<rparr>,
         \<lparr>timestamp = 20, state_vector = [2], other = 3\<rparr>]) 10
     = Some \<lparr>timestamp = 10, state_vector = [5], other = 1\<rparr>"
  by code_simp

lemma interp_from_between:
  assumes "sorted_wrt (<) (map fst (pre @ [p, q] @ post))" and "fst p < x" and "x < fst q"
  shows "interp_from x (pre @ [p, q] @ post)
           = (snd q - snd p) / (fst q - fst p) * (x - fst p) + snd p"
  using assms
proof (induction pre)
  case Nil
  then show ?case by simp
next
  case (Cons r pre)
  have ih: "interp_from x (pre @ [p, q] @ post)
              = (snd q - snd p) / (fst q - fst p) * (x - fst p) + snd p"
    using Cons by simp
  show ?case
  proof (cases pre)
    case Nil
    then show ?thesis using ih Cons.prems by simp
  next
    case (Cons r' pre')
    have "fst r' < fst p" using Cons.prems(1) Cons by simp
    then have "fst r' \<le> x" using Cons.prems(2) by simp
    then show ?thesis using ih Cons by simp
  qed
qed

lemma zip_map_same: "zip (map f xs) (map g xs) = map (\<lambda>x. (f x, g x)) xs"
  by (induction xs) simp_all

lemma exact_seconds_less: "exact_seconds a < exact_seconds b \<longleftrightarrow> a < b"
  by (simp add: exact_seconds_def divide_less_cancel)

text \<open>
  With the conversion that does not round, the ratio of the differences of the
  converted times is the ratio of the differences of the times.
\<close>

lemma exact_seconds_ratio:
  "(exact_seconds t - exact_seconds t0) / (exact_seconds t1 - exact_seconds t0)
     = real_of_int (t - t0) / real_of_int (t1 - t0)"
proof -
  have d: "exact_seconds x - exact_seconds y = real_of_int (x - y) / 1000000" for x y
    by (simp add: exact_seconds_def diff_divide_distrib)
  show ?thesis
    unfolding d by (simp only: divide_divide_eq_right divide_divide_eq_left)
qed

lemma np_interp1_between:
  assumes srt: "sorted_wrt (<) (map fst d)"
    and d: "d = pre @ [(t0, s0), (t1, s1)] @ post"
    and lo: "t0 < t" and hi: "t < (t1 :: datetime)"
    and mono: "\<forall>a\<in>insert t (fst ` set d). \<forall>b\<in>insert t (fst ` set d).
                 a < b \<longrightarrow> posix_timestamp a < posix_timestamp b"
  shows "np_interp1 (posix_timestamp t) (map (\<lambda>kv. posix_timestamp (fst kv)) d)
           (map (\<lambda>kv. f (snd kv)) d)
         = f s0 + (f s1 - f s0) * (posix_timestamp t - posix_timestamp t0)
                    / (posix_timestamp t1 - posix_timestamp t0)"
proof -
  let ?xp = "map (\<lambda>kv. posix_timestamp (fst kv)) d"
  let ?fp = "map (\<lambda>kv. f (snd kv)) d"
  let ?phi = "\<lambda>kv. (posix_timestamp (fst kv), f (snd kv))"
  have dne: "d \<noteq> []" using d by simp
  have k0: "t0 \<in> fst ` set d" and k1: "t1 \<in> fst ` set d"
    using d by force+
  have le: "posix_timestamp a \<le> posix_timestamp b"
    if "a \<in> insert t (fst ` set d)" "b \<in> insert t (fst ` set d)" "a \<le> b" for a b
  proof (cases "a = b")
    case True
    then show ?thesis by simp
  next
    case False
    then have "a < b" using that(3) by simp
    then have "posix_timestamp a < posix_timestamp b"
      using mono that(1,2) by blast
    then show ?thesis by simp
  qed
  have keys_hd: "fst (hd d) \<le> t0"
    using srt d by (cases pre) (auto simp: sorted_wrt_append)
  have keys_last: "t1 \<le> fst (last d)"
    using srt d by (cases post rule: rev_cases) (auto simp: sorted_wrt_append)
  have hdk: "fst (hd d) \<in> fst ` set d" and lastk: "fst (last d) \<in> fst ` set d"
    using dne by simp_all
  have tlo: "posix_timestamp t0 < posix_timestamp t"
    using mono k0 lo by blast
  have thi: "posix_timestamp t < posix_timestamp t1"
    using mono k1 hi by blast
  have "posix_timestamp (fst (hd d)) \<le> posix_timestamp t0"
    using le [of "fst (hd d)" t0] hdk k0 keys_hd by simp
  then have 2: "\<not> posix_timestamp t < hd ?xp"
    using tlo dne by (simp add: hd_map)
  have "posix_timestamp t1 \<le> posix_timestamp (fst (last d))"
    using le [of t1 "fst (last d)"] lastk k1 keys_last by simp
  then have 1: "\<not> posix_timestamp t > last ?xp"
    using thi dne by (simp add: last_map)
  have z: "zip ?xp ?fp = map ?phi pre @ [?phi (t0, s0), ?phi (t1, s1)] @ map ?phi post"
    by (simp add: zip_map_same d)
  have "sorted_wrt (\<lambda>x y. fst x < fst y) d"
    using srt by (simp add: sorted_wrt_map)
  moreover have "posix_timestamp (fst x) < posix_timestamp (fst y)"
    if "x \<in> set d" "y \<in> set d" "fst x < fst y" for x y
  proof -
    have "fst x \<in> insert t (fst ` set d)" "fst y \<in> insert t (fst ` set d)"
      using that(1,2) by simp_all
    then show ?thesis using mono that(3) by blast
  qed
  ultimately have "sorted_wrt (\<lambda>x y. posix_timestamp (fst x) < posix_timestamp (fst y)) d"
    by (rule sorted_wrt_mono_rel [rotated])
  then have "sorted_wrt (<) (map fst (map ?phi d))"
    by (simp add: sorted_wrt_map)
  then have s': "sorted_wrt (<) (map fst (map ?phi pre @ [?phi (t0, s0), ?phi (t1, s1)] @ map ?phi post))"
    by (simp add: d)
  have "interp_from (posix_timestamp t) (zip ?xp ?fp)
      = (snd (?phi (t1, s1)) - snd (?phi (t0, s0))) / (fst (?phi (t1, s1)) - fst (?phi (t0, s0)))
          * (posix_timestamp t - fst (?phi (t0, s0))) + snd (?phi (t0, s0))"
    unfolding z using s' tlo thi by (intro interp_from_between) simp_all
  also have "\<dots> = f s0 + (f s1 - f s0) * (posix_timestamp t - posix_timestamp t0)
                    / (posix_timestamp t1 - posix_timestamp t0)"
    by simp
  finally show ?thesis
    using 1 2 by (simp add: np_interp1_def)
qed

text \<open>
  C1, as amended. For a sequence in non-decreasing timestamp order whose state vectors
  all have \<open>D\<close> components, and a requested time \<open>t\<close> strictly between two consecutive
  keys \<open>t0 < t1\<close> of the timeline with states \<open>s0\<close> and \<open>s1\<close>, where the conversion to
  seconds is strictly increasing on \<open>t\<close> and the timestamps of the sequence: the state
  returned for \<open>t\<close> has, in each component \<open>e\<close>, the value
  \<open>v0[e] + (v1[e] - v0[e]) * (x - x0) / (x1 - x0)\<close>, where \<open>x\<close>, \<open>x0\<close>, \<open>x1\<close> are the
  seconds that \<open>t\<close>, \<open>t0\<close>, \<open>t1\<close> convert to, the arithmetic on them being exact.
\<close>

theorem interpolation_is_linear:
  assumes gs: "get_states h sms = Some ss"
    and srt: "sorted (map timestamp ss)"
    and dims: "\<forall>s\<in>set ss. length (state_vector s) = D"
    and mem: "t \<in> set tms"
    and d: "time_state_dict ss = pre @ [(t0, s0), (t1, s1)] @ post"
    and lo: "t0 < t" and hi: "t < t1"
    and mono: "\<forall>a\<in>insert t (timestamp ` set ss). \<forall>b\<in>insert t (timestamp ` set ss).
                 a < b \<longrightarrow> posix_timestamp a < posix_timestamp b"
    and lin: "lin = map (\<lambda>e. state_vector s0 ! e
                               + (state_vector s1 ! e - state_vector s0 ! e)
                                   * (posix_timestamp t - posix_timestamp t0)
                                   / (posix_timestamp t1 - posix_timestamp t0)) [0 ..< D]"
  shows "(\<exists>h' ws a out.
            interpolate_state_mutable_sequence posix_timestamp h sms (TimesList tms)
              = (h', ws, Inr (Sequence a))
          \<and> get_states h' a = Some out
          \<and> (\<exists>st\<in>set out. timestamp st = t)
          \<and> (\<forall>st\<in>set out. timestamp st = t \<longrightarrow> state_vector st = lin))
       \<and> (\<exists>h' ws st. interpolate_state_mutable_sequence posix_timestamp h sms (Single t)
                         = (h', ws, Inr (State st))
                       \<and> state_vector st = lin)
       \<and> length (state_vector s0) = D \<and> length (state_vector s1) = D
       \<and> timestamp (hd ss) \<le> t \<and> t \<le> timestamp (last ss)"
proof -
  have e0: "(t0, s0) \<in> set (time_state_dict ss)" and e1: "(t1, s1) \<in> set (time_state_dict ss)"
    by (simp_all add: d)
  have s0: "s0 \<in> set ss" "timestamp s0 = t0" and s1: "s1 \<in> set ss" "timestamp s1 = t1"
    using time_state_dict_entry [OF e0] time_state_dict_entry [OF e1] by blast+
  have ne: "ss \<noteq> []" using s0 by auto
  have len: "length (state_vector s0) = D" "length (state_vector s1) = D"
    using dims s0 s1 by simp_all
  have "timestamp (hd ss) \<le> t0" using sorted_hd_le [OF srt s0(1)] s0(2) by simp
  moreover have "t1 \<le> timestamp (last ss)" using sorted_le_last [OF srt s1(1)] s1(2) by simp
  ultimately have rng: "timestamp (hd ss) \<le> t \<and> t \<le> timestamp (last ss)"
    using lo hi by simp
  have ks: "sorted_wrt (<) (map fst (time_state_dict ss))"
    using srt by (rule sorted_time_state_dict)
  have "k \<noteq> t" if "k \<in> fst ` set (time_state_dict ss)" for k
    using that ks lo hi unfolding d by (auto simp: sorted_wrt_append)
  then have key: "t \<notin> timestamp ` set ss"
    unfolding keys_time_state_dict by blast
  then have m: "map_of (time_state_dict ss) t = None"
    by (simp add: map_of_eq_None_iff keys_time_state_dict)
  have mono': "\<forall>a\<in>insert t (fst ` set (time_state_dict ss)).
                \<forall>b\<in>insert t (fst ` set (time_state_dict ss)).
                  a < b \<longrightarrow> posix_timestamp a < posix_timestamp b"
    using mono by (simp only: keys_time_state_dict)
  define tmpl where "tmpl = fst (the (find (\<lambda>p. t \<le> timestamp (snd p)) (pairwise_iter ss)))"
  define vec where "vec = map (\<lambda>e. np_interp1 (posix_timestamp t)
                               (map (\<lambda>kv. posix_timestamp (fst kv)) (time_state_dict ss))
                               (map (\<lambda>kv. state_vector (snd kv) ! e) (time_state_dict ss)))
                          [0 ..< D]"
  have G: "from_state tmpl t vec =
             (case map_of (time_state_dict ss) t of
                   Some s \<Rightarrow> s
                 | None \<Rightarrow>
                     from_state
                       (fst (the (find (\<lambda>p. t \<le> timestamp (snd p)) (pairwise_iter ss)))) t
                       (map (\<lambda>e. np_interp1 (posix_timestamp t)
                               (map (\<lambda>kv. posix_timestamp (fst kv)) (time_state_dict ss))
                               (map (\<lambda>kv. state_vector (snd kv) ! e) (time_state_dict ss)))
                          [0 ..< D]))"
    by (simp only: m option.case tmpl_def vec_def)
  have "vec = lin"
    unfolding vec_def lin
    by (intro map_cong refl
          np_interp1_between [OF ks d lo hi mono', where f = "\<lambda>s. state_vector s ! e" for e])
  then have sv: "state_vector (from_state tmpl t vec) = lin"
    by (simp add: from_state_def)
  show ?thesis
    using call_result_at [OF gs ne mem rng dims G] sv len rng by (simp only:) blast
qed

theorem interpolation_is_linear_witness:
  "\<exists>h' ws st. interpolate_state_mutable_sequence exact_seconds
       [SequenceObj 1 None,
        ListOfStates [\<lparr>timestamp = 0, state_vector = [0, 0], other = ()\<rparr>,
                      \<lparr>timestamp = 10, state_vector = [10, 20], other = ()\<rparr>]
          :: (unit, unit) pyobj] 0 (Single 5)
       = (h', ws, Inr (State st))
     \<and> state_vector st = [5, 10]"
proof -
  let ?s0 = "\<lparr>timestamp = 0, state_vector = [0, 0], other = ()\<rparr>"
  let ?s1 = "\<lparr>timestamp = 10, state_vector = [10, 20], other = ()\<rparr>"
  let ?ss = "[?s0, ?s1]"
  let ?h = "[SequenceObj 1 None, ListOfStates ?ss] :: (unit, unit) heap"
  have g: "get_states ?h 0 = Some ?ss"
    by (simp add: get_states_def deref_def)
  have s: "sorted (map timestamp ?ss)" by simp
  have m: "(5::int) \<in> set [5]" by simp
  have dm: "\<forall>s\<in>set ?ss. length (state_vector s) = 2" by simp
  have d: "time_state_dict ?ss = [] @ [(0, ?s0), (10, ?s1)] @ []"
    by (simp add: time_state_dict_def)
  have lo: "(0::int) < 5" and hi: "(5::int) < 10" by simp_all
  have mono: "\<forall>a\<in>insert 5 (timestamp ` set ?ss). \<forall>b\<in>insert 5 (timestamp ` set ?ss).
                 a < b \<longrightarrow> exact_seconds a < exact_seconds b"
    by (simp add: exact_seconds_less)
  have e: "map (\<lambda>e. state_vector ?s0 ! e
                               + (state_vector ?s1 ! e - state_vector ?s0 ! e)
                                   * (exact_seconds 5 - exact_seconds 0)
                                   / (exact_seconds 10 - exact_seconds 0)) [0 ..< 2]
          = [5, 10]"
    by code_simp
  show ?thesis
    using interpolation_is_linear [OF g s dm m d lo hi mono refl] unfolding e by blast
qed

text \<open>
  C1 as stated fails in two ways. For a sequence that is not in timestamp order: with
  the states at 0, 20, 5, 30 and the values 0, 20, 0, 0 the sample points are passed in
  this order, and the value returned for 10 is \<open>10\<close>, on the line from the state at 0
  to the state at 20. In the ascending timeline 10 lies between 5 and 20, where the
  claim's value is \<open>20/3\<close>; in the order the states were given it also lies between the
  neighbours 5 and 30, where the claim's value is \<open>0\<close>. And for a sequence in timestamp
  order whose times are a few microseconds apart: with states at the first instant of
  2024 and three microseconds later, values 0 and 3, the doubles that the three times
  convert to are 0, 4 and 13 steps of \<open>2^-22\<close> seconds apart, and the value returned one
  microsecond in is \<open>12/13\<close>, where the claim's value is \<open>1\<close>.
\<close>

theorem interpolation_linear_in_time_counterexample:
  "interpolate_state_mutable_sequence exact_seconds
     [SequenceObj 1 None,
      ListOfStates [\<lparr>timestamp = 0, state_vector = [0], other = ()\<rparr>,
                    \<lparr>timestamp = 20, state_vector = [20], other = ()\<rparr>,
                    \<lparr>timestamp = 5, state_vector = [0], other = ()\<rparr>,
                    \<lparr>timestamp = 30, state_vector = [0], other = ()\<rparr>]
        :: (unit, unit) pyobj] 0 (TimesList [10])
   = ([SequenceObj 1 None,
       ListOfStates [\<lparr>timestamp = 0, state_vector = [0], other = ()\<rparr>,
                     \<lparr>timestamp = 20, state_vector = [20], other = ()\<rparr>,
                     \<lparr>timestamp = 5, state_vector = [0], other = ()\<rparr>,
                     \<lparr>timestamp = 30, state_vector = [0], other = ()\<rparr>],
       SequenceObj 3 None,
       ListOfStates [\<lparr>timestamp = 10, state_vector = [10], other = ()\<rparr>]],
      [], Inr (Sequence 2))
   \<and> [10] \<noteq> [(0::real) + (20 - 0) * real_of_int (10 - 5) / real_of_int (20 - 5)]
   \<and> [10] \<noteq> [(0::real) + (0 - 0) * real_of_int (10 - 5) / real_of_int (30 - 5)]
   \<and> interpolate_state_mutable_sequence double_seconds
     [SequenceObj 1 None,
      ListOfStates [\<lparr>timestamp = 1704067200000000, state_vector = [0], other = ()\<rparr>,
                    \<lparr>timestamp = 1704067200000003, state_vector = [3], other = ()\<rparr>]
        :: (unit, unit) pyobj] 0 (TimesList [1704067200000001])
   = ([SequenceObj 1 None,
       ListOfStates [\<lparr>timestamp = 1704067200000000, state_vector = [0], other = ()\<rparr>,
                     \<lparr>timestamp = 1704067200000003, state_vector = [3], other = ()\<rparr>],
       SequenceObj 3 None,
       ListOfStates [\<lparr>timestamp = 1704067200000001, state_vector = [12 / 13], other = ()\<rparr>]],
      [], Inr (Sequence 2))
   \<and> [12 / 13] \<noteq> [(0::real) + (3 - 0)
          * real_of_int (1704067200000001 - 1704067200000000)
          / real_of_int (1704067200000003 - 1704067200000000)]"
  by code_simp

section \<open>The work of the cursor\<close>

lemma inner_fun_steps_bound:
  "inner_fun t (b, a, rest) = (r, (b', a', rest')) \<Longrightarrow>
     inner_fun_steps t (b, a, rest) + length rest'
       = length rest + (case r of Inl e \<Rightarrow> 1 | Inr s \<Rightarrow> 0)"
  by (induction rest arbitrary: b a) (auto split: if_splits)

lemma calls_steps_bound:
  "calls_steps (b, a, rest) ts \<le> length rest + length (filter isl (calls (b, a, rest) ts))"
proof (induction ts arbitrary: b a rest)
  case Nil
  then show ?case by simp
next
  case (Cons t ts)
  obtain r b' a' rest' where i: "inner_fun t (b, a, rest) = (r, (b', a', rest'))"
    by (metis prod_cases3)
  have 1: "inner_fun_steps t (b, a, rest) + length rest'
             = length rest + (case r of Inl e \<Rightarrow> 1 | Inr s \<Rightarrow> 0)"
    using i by (rule inner_fun_steps_bound)
  have 2: "calls_steps (b', a', rest') ts
             \<le> length rest' + length (filter isl (calls (b', a', rest') ts))"
    by (rule Cons.IH)
  show ?case
    using 1 2 i by (cases r) simp_all
qed

lemma length_pairwise: "length (pairwise_iter xs) = length xs - 1"
  by (induction xs rule: pairwise_iter.induct) auto

text \<open>
  Over any run of calls on one cursor, the loop bodies executed in total are at most
  the number of states minus two, plus one for each call that raises: the iterator is
  only ever advanced, never rewound.
\<close>

lemma cursor_advances_bounded:
  assumes "get_previous_state ss = Inr c"
  shows "calls_steps c ts + 2 \<le> length ss + length (filter isl (calls c ts))"
proof -
  obtain b a rest where c: "c = (b, a, rest)" by (metis prod_cases3)
  then have p: "pairwise_iter ss = (b, a) # rest"
    using assms by (auto simp: get_previous_state_def split: list.splits)
  have "length (pairwise_iter ss) = length ss - 1"
    by (rule length_pairwise)
  then have "length rest + 2 = length ss" using p by simp
  then show ?thesis
    using calls_steps_bound [of b a rest ts] c by simp
qed

end
